theory Spec2Isabelle
  imports Complex_Main
begin

section \<open>A shallow embedding of tcp-probe (src/ping.js)\<close>

text \<open>
  The program opens one TCP socket per attempt, registers event handlers on it and
  finishes an attempt from whichever handler runs first. All handlers of one
  invocation of \<open>probe\<close> share the counter \<open>i\<close> and the list \<open>results\<close>; the handlers
  of one attempt share the variables declared in \<open>connect\<close>. The model keeps both: a
  global state with the counter, the results and one record per socket created so
  far, and handlers that are functions on that state. The event loop is the list of
  events the transport and the timers deliver, each tagged with the socket it belongs
  to and the clock reading at delivery.

  Times are milliseconds as exact rationals (the source divides nanoseconds by 1e6 in
  floating point; rounding is not modelled). A Buffer is a list of 8-bit characters,
  and a JavaScript string is taken as its encoded bytes.
\<close>

subsection \<open>Values\<close>

type_synonym bytes = string

text \<open>The \<open>Error\<close> objects the source creates, and the ones the transport reports.\<close>

datatype js_error =
    ResponseTimeout            \<comment> \<open>\<open>Error('Response timeout')\<close>\<close>
  | MaxResponseBytesExceeded   \<comment> \<open>\<open>Error('Max Response Bytes Exceeded')\<close>\<close>
  | RequestTimeout             \<comment> \<open>\<open>Error('Request timeout')\<close>\<close>
  | SocketError string         \<comment> \<open>the argument of the socket's \<open>'error'\<close> event\<close>

text \<open>Exceptions that leave \<open>probe\<close> or one of its handlers.\<close>

datatype js_exception =
    CallbackRequired           \<comment> \<open>\<open>Error('Callback function is required')\<close>\<close>
  | TypeError                  \<comment> \<open>reading a property of \<open>undefined\<close>\<close>

datatype payload = Str string | Buf bytes

datatype matcher =
    MatchStr string
  | MatchBuf bytes
  | MatchRegExp "string \<Rightarrow> bool"   \<comment> \<open>\<open>re.test\<close> on the decoded buffer\<close>
  | MatchFn "bytes \<Rightarrow> bool"        \<comment> \<open>the truthiness of \<open>f(buffer, options)\<close>\<close>

subsection \<open>Options: what the caller passes, and the merged object\<close>

text \<open>A key the caller leaves out is \<open>None\<close>. A key passed with the value \<open>undefined\<close>,
  which the spread of line 69 would put over the default, is not represented.\<close>

record caller_options =
  o_address :: "string option"
  o_port :: "nat option"
  o_attempts :: "nat option"
  o_timeout :: "nat option"
  o_responseTimeout :: "nat option"
  o_encoding :: "string option"
  o_request :: "payload option"
  o_exitRequest :: "payload option"
  o_match :: "matcher option"
  o_maxResponseBytes :: "nat option"
  o_capture :: "bool option"
  o_noDelay :: "bool option"

record config =
  address :: string
  port :: nat
  attempts :: nat
  timeout :: nat
  responseTimeout :: "nat option"
  encoding :: string
  request :: bytes
  exitRequest :: "bytes option"
  match :: "matcher option"
  maxResponseBytes :: nat
  capture :: bool
  noDelay :: bool

text \<open>JavaScript truthiness of the option values: the empty string, \<open>false\<close>, \<open>0\<close> and
  \<open>undefined\<close> are falsy; every object (a Buffer, even an empty one, a RegExp, a
  function) is truthy.\<close>

fun truthy_payload :: "payload option \<Rightarrow> bool" where
  "truthy_payload None = False"
| "truthy_payload (Some (Str s)) = (s \<noteq> [])"
| "truthy_payload (Some (Buf b)) = True"

fun truthy_matcher :: "matcher option \<Rightarrow> bool" where
  "truthy_matcher None = False"
| "truthy_matcher (Some (MatchStr s)) = (s \<noteq> [])"
| "truthy_matcher (Some (MatchBuf b)) = True"
| "truthy_matcher (Some (MatchRegExp f)) = True"
| "truthy_matcher (Some (MatchFn f)) = True"

fun truthy_bool :: "bool option \<Rightarrow> bool" where
  "truthy_bool None = False"
| "truthy_bool (Some b) = b"

fun truthy_num :: "nat option \<Rightarrow> bool" where
  "truthy_num None = False"
| "truthy_num (Some n) = (n \<noteq> 0)"

text \<open>Line 50: \<open>!!(options.request || options.exitRequest || options.capture ||
  options.match || options.maxResponseBytes)\<close>, computed before the defaults are merged.\<close>

definition isProbe :: "caller_options \<Rightarrow> bool" where
  "isProbe opts =
     (truthy_payload (o_request opts) \<or> truthy_payload (o_exitRequest opts) \<or>
      truthy_bool (o_capture opts) \<or> truthy_matcher (o_match opts) \<or>
      truthy_num (o_maxResponseBytes opts))"

text \<open>\<open>Buffer.from(s, encoding)\<close> for a string that is already a sequence of bytes, as with
  \<open>utf8\<close> on encoded text. The decoding that \<open>hex\<close> or \<open>base64\<close> would do and the
  TypeError of an unknown encoding are not modelled; nothing below is stated of them.\<close>

definition Buffer_from :: "string \<Rightarrow> string \<Rightarrow> bytes" where
  "Buffer_from s enc = s"

fun or_default :: "'a option \<Rightarrow> 'a \<Rightarrow> 'a" where
  "or_default None d = d"
| "or_default (Some v) d = v"

fun to_buffer :: "string \<Rightarrow> payload \<Rightarrow> bytes" where
  "to_buffer enc (Str s) = Buffer_from s enc"
| "to_buffer enc (Buf b) = b"

fun normalize_match :: "string \<Rightarrow> matcher \<Rightarrow> matcher" where
  "normalize_match enc (MatchStr s) = MatchBuf (Buffer_from s enc)"
| "normalize_match enc m = m"

text \<open>Lines 53-80: the defaults, overridden by the caller's keys, then strings turned
  into Buffers.\<close>

definition merge_defaults :: "caller_options \<Rightarrow> config" where
  "merge_defaults opts =
     (let enc = or_default (o_encoding opts) ''utf8'' in
      \<lparr> address = or_default (o_address opts) ''localhost'',
        port = or_default (o_port opts) 80,
        attempts = or_default (o_attempts opts) 1,
        timeout = or_default (o_timeout opts) 5000,
        responseTimeout = o_responseTimeout opts,
        encoding = enc,
        request = (case o_request opts of None \<Rightarrow> [] | Some p \<Rightarrow> to_buffer enc p),
        exitRequest = map_option (to_buffer enc) (o_exitRequest opts),
        match = map_option (normalize_match enc) (o_match opts),
        maxResponseBytes = or_default (o_maxResponseBytes opts) 50000,
        capture = or_default (o_capture opts) False,
        noDelay = or_default (o_noDelay opts) True \<rparr>)"

subsection \<open>Results and the report\<close>

text \<open>A key that is missing and a key whose value is \<open>undefined\<close> are both \<open>None\<close>: the
  source only ever tests them with \<open>typeof x === 'undefined'\<close>, comparisons and
  truthiness, which do not tell the two apart.\<close>

record attempt_result =
  seq :: nat
  conTime :: "rat option"
  time :: "rat option"
  match_r :: "bool option"
  err :: "js_error option"
  bytes :: "nat option"
  data :: "bytes option"

record probe_stats =
  matches :: nat
  errors :: nat
  conAvg :: "rat option"
  conMax :: "rat option"
  conMin :: "rat option"

text \<open>\<open>avg\<close> and \<open>conAvg\<close> are numbers; \<open>None\<close> there stands for a value that is no finite
  number (\<open>NaN\<close>, or an infinity). \<open>max_time\<close>, \<open>min_time\<close>, \<open>conMax\<close>, \<open>conMin\<close> are a number or
  \<open>undefined\<close>.\<close>

record report =
  rep_address :: string
  rep_port :: nat
  rep_attempts :: nat
  dropped :: nat
  avg :: "rat option"
  max_time :: "rat option"
  min_time :: "rat option"
  probe_part :: "probe_stats option"
  rep_results :: "attempt_result list"

subsection \<open>The Result Aggregator (lines 86-148)\<close>

text \<open>\<open>a > b\<close> and \<open>a < b\<close> on values that may be \<open>undefined\<close>: \<open>undefined\<close> converts to
  \<open>NaN\<close> and every comparison with it is false.\<close>

fun js_gt :: "rat option \<Rightarrow> rat option \<Rightarrow> bool" where
  "js_gt (Some a) (Some b) = (a > b)"
| "js_gt _ _ = False"

fun js_lt :: "rat option \<Rightarrow> rat option \<Rightarrow> bool" where
  "js_lt (Some a) (Some b) = (a < b)"
| "js_lt _ _ = False"

text \<open>\<open>x / n\<close>: division by zero gives \<open>NaN\<close> or an infinity, no exception.\<close>

definition js_div :: "rat option \<Rightarrow> nat \<Rightarrow> rat option" where
  "js_div x n = (case x of None \<Rightarrow> None | Some v \<Rightarrow> if n = 0 then None else Some (v / of_nat n))"

text \<open>\<open>prev + curr.conTime\<close>: adding \<open>undefined\<close> gives \<open>NaN\<close>.\<close>

fun js_add :: "rat option \<Rightarrow> rat option \<Rightarrow> rat option" where
  "js_add (Some a) (Some b) = Some (a + b)"
| "js_add _ _ = None"

definition count_dropped :: "attempt_result list \<Rightarrow> nat" where
  "count_dropped rs = foldl (\<lambda>prev curr. if time curr = None then prev + 1 else prev) 0 rs"

definition sum_time :: "attempt_result list \<Rightarrow> rat" where
  "sum_time rs = foldl (\<lambda>prev curr. case time curr of None \<Rightarrow> prev | Some t \<Rightarrow> prev + t) 0 rs"

definition reduce_max :: "(attempt_result \<Rightarrow> rat option) \<Rightarrow> rat option \<Rightarrow> attempt_result list \<Rightarrow> rat option" where
  "reduce_max field seed rs = foldl (\<lambda>prev curr. if js_gt prev (field curr) then prev else field curr) seed rs"

definition reduce_min :: "(attempt_result \<Rightarrow> rat option) \<Rightarrow> rat option \<Rightarrow> attempt_result list \<Rightarrow> rat option" where
  "reduce_min field seed rs = foldl (\<lambda>prev curr. if js_lt prev (field curr) then prev else field curr) seed rs"

definition sum_conTime :: "attempt_result list \<Rightarrow> rat option" where
  "sum_conTime rs = foldl (\<lambda>prev curr. if time curr = None then prev else js_add prev (conTime curr)) (Some 0) rs"

text \<open>The \<open>else\<close> branch of \<open>check\<close>. \<open>results[0].time\<close> on an empty array reads a property
  of \<open>undefined\<close> and throws a TypeError.\<close>

definition aggregate :: "bool \<Rightarrow> config \<Rightarrow> attempt_result list \<Rightarrow> js_exception + report" where
  "aggregate isP cfg rs =
     (case rs of
        [] \<Rightarrow> Inl TypeError
      | r0 # _ \<Rightarrow>
          Inr \<lparr> rep_address = address cfg,
                rep_port = port cfg,
                rep_attempts = attempts cfg,
                dropped = count_dropped rs,
                avg = js_div (Some (sum_time rs)) (length rs - count_dropped rs),
                max_time = reduce_max time (time r0) rs,
                min_time = reduce_min time (time r0) rs,
                probe_part =
                  (if isP then
                     Some \<lparr> matches = length (filter (\<lambda>r. match_r r = Some True) rs),
                            errors = length (filter (\<lambda>r. err r \<noteq> None) rs),
                            conAvg = js_div (sum_conTime rs) (length rs - count_dropped rs),
                            conMax = reduce_max conTime (conTime r0) rs,
                            conMin = reduce_min conTime (conTime r0) rs \<rparr>
                   else None),
                rep_results = rs \<rparr>)"

subsection \<open>One attempt: the socket and the variables of \<open>connect\<close>\<close>

text \<open>The first four fields are the state of the \<open>net.Socket\<close> the attempt created; the
  rest are the \<open>let\<close> variables of lines 158-166. \<open>responseTimeoutRef\<close> is \<open>Some d\<close> while
  the timer set for \<open>d\<close> milliseconds is pending, \<open>None\<close> once it is cleared or has
  fired (and in plain mode, which sets none).\<close>

record attempt =
  start :: rat
  connected :: bool
  ended :: bool
  destroyed :: bool
  written :: "bytes list"
  didPushResults :: bool
  connectTime :: "rat option"
  didMatch :: bool
  didExceedResponseBytes :: bool
  didRequestExit :: bool
  lastErr :: "js_error option"
  responseBuffer :: "bytes option"
  responseTimeoutRef :: "nat option"

text \<open>The state of one invocation of \<open>probe\<close>: \<open>attempt_i\<close> is the source's \<open>i\<close>,
  \<open>socks ! k\<close> is the attempt that the \<open>k\<close>-th call of \<open>connect\<close> created, \<open>delivered\<close>
  lists the calls of the callback, \<open>uncaught\<close> the exceptions thrown out of a handler.\<close>

record probe_state =
  attempt_i :: nat
  results :: "attempt_result list"
  socks :: "attempt list"
  delivered :: "report list"
  uncaught :: "js_exception list"

definition s_write :: "bytes \<Rightarrow> attempt \<Rightarrow> attempt" where
  "s_write d a = (if ended a \<or> destroyed a then a else a\<lparr>written := written a @ [d]\<rparr>)"

definition s_end :: "attempt \<Rightarrow> attempt" where
  "s_end a = a\<lparr>ended := True\<rparr>"

definition s_destroy :: "attempt \<Rightarrow> attempt" where
  "s_destroy a = a\<lparr>destroyed := True\<rparr>"

text \<open>Lines 153-155, 158-166 and 203-209: a new socket, the clock read into \<open>start\<close>, and
  in probe mode the response timer set with \<open>options.timeout\<close>.\<close>

definition new_attempt :: "bool \<Rightarrow> config \<Rightarrow> rat \<Rightarrow> attempt" where
  "new_attempt isP cfg now =
     \<lparr> start = now, connected = False, ended = False, destroyed = False, written = [],
       didPushResults = False, connectTime = None, didMatch = False,
       didExceedResponseBytes = False, didRequestExit = False, lastErr = None,
       responseBuffer = None,
       responseTimeoutRef = (if isP then Some (timeout cfg) else None) \<rparr>"

definition connect :: "bool \<Rightarrow> config \<Rightarrow> rat \<Rightarrow> probe_state \<Rightarrow> probe_state" where
  "connect isP cfg now st = st\<lparr>socks := socks st @ [new_attempt isP cfg now]\<rparr>"

text \<open>Lines 82-150.\<close>

definition check :: "bool \<Rightarrow> config \<Rightarrow> rat \<Rightarrow> probe_state \<Rightarrow> probe_state" where
  "check isP cfg now st =
     (if attempt_i st < attempts cfg then connect isP cfg now st
      else (case aggregate isP cfg (results st) of
              Inl e \<Rightarrow> st\<lparr>uncaught := uncaught st @ [e]\<rparr>
            | Inr r \<Rightarrow> st\<lparr>delivered := delivered st @ [r]\<rparr>))"

subsection \<open>Probe mode handlers (lines 168-293)\<close>

text \<open>The block \<open>if (options.exitRequest && !didRequestExit) { didRequestExit = true;
  try { s.write(options.exitRequest) } catch (e) {} }\<close>, which the source repeats three
  times.\<close>

definition request_exit :: "config \<Rightarrow> attempt \<Rightarrow> attempt" where
  "request_exit cfg a =
     (case exitRequest cfg of
        None \<Rightarrow> a
      | Some x \<Rightarrow> if didRequestExit a then a else s_write x (a\<lparr>didRequestExit := True\<rparr>))"

text \<open>The object pushed at lines 189-198. \<open>result\<close> is the argument of
  \<open>probeResultCheck\<close>: \<open>{}\<close> is \<open>None\<close>, \<open>{ err: e }\<close> is \<open>Some e\<close>, and its keys are spread
  last.\<close>

definition pushed_result :: "config \<Rightarrow> attempt \<Rightarrow> nat \<Rightarrow> rat \<Rightarrow> js_error option \<Rightarrow> attempt_result" where
  "pushed_result cfg a i now result =
     \<lparr> seq = i,
       conTime = connectTime a,
       time = (case connectTime a of None \<Rightarrow> None | Some c \<Rightarrow> Some (now - start a)),
       match_r = (if truthy_matcher (match cfg) then Some (didMatch a) else None),
       err = (case result of None \<Rightarrow> lastErr a | Some e \<Rightarrow> Some e),
       bytes = map_option length (responseBuffer a),
       data = (if capture cfg then responseBuffer a else None) \<rparr>"

definition probeResultCheck :: "config \<Rightarrow> nat \<Rightarrow> js_error option \<Rightarrow> rat \<Rightarrow> probe_state \<Rightarrow> probe_state" where
  "probeResultCheck cfg k result now st =
     (let a0 = (socks st ! k)\<lparr>responseTimeoutRef := None\<rparr> in
      if didPushResults a0 then st\<lparr>socks := (socks st)[k := a0]\<rparr>
      else
        let a1 = s_end (request_exit cfg (a0\<lparr>didPushResults := True\<rparr>)) in
        check True cfg now
          (st\<lparr>socks := (socks st)[k := a1],
              results := results st @ [pushed_result cfg a1 (attempt_i st) now result],
              attempt_i := Suc (attempt_i st)\<rparr>))"

text \<open>The timer callback of lines 203-209.\<close>

definition onResponseTimeout :: "config \<Rightarrow> nat \<Rightarrow> rat \<Rightarrow> probe_state \<Rightarrow> probe_state" where
  "onResponseTimeout cfg k now st =
     (let a = (socks st ! k)\<lparr>responseTimeoutRef := None\<rparr> in
      if didPushResults a then st\<lparr>socks := (socks st)[k := a]\<rparr>
      else
        probeResultCheck cfg k (Some ResponseTimeout) now
          (st\<lparr>socks := (socks st)[k := a\<lparr>lastErr := (case lastErr a of None \<Rightarrow> Some ResponseTimeout | Some e \<Rightarrow> Some e)\<rparr>]\<rparr>))"

text \<open>Lines 211-219: the connect callback. It also registers the \<open>'data'\<close> listener,
  which is why \<open>onData\<close> below runs only once \<open>responseBuffer\<close> exists.\<close>

definition onConnect :: "config \<Rightarrow> nat \<Rightarrow> rat \<Rightarrow> probe_state \<Rightarrow> probe_state" where
  "onConnect cfg k now st =
     (let a = socks st ! k;
          a1 = s_write (request cfg) (a\<lparr>connected := True, connectTime := Some (now - start a)\<rparr>)
      in st\<lparr>socks := (socks st)[k := a1\<lparr>responseBuffer := Some []\<rparr>]\<rparr>)"

text \<open>\<open>buffer.includes(needle)\<close>: the needle occurs as a contiguous run of bytes.\<close>

fun starts_with :: "bytes \<Rightarrow> bytes \<Rightarrow> bool" where
  "starts_with ys [] = True"
| "starts_with [] (x # xs) = False"
| "starts_with (y # ys) (x # xs) = (y = x \<and> starts_with ys xs)"

fun buffer_includes :: "bytes \<Rightarrow> bytes \<Rightarrow> bool" where
  "buffer_includes [] xs = (xs = [])"
| "buffer_includes (y # ys) xs = (starts_with (y # ys) xs \<or> buffer_includes ys xs)"

text \<open>Lines 242-246: the three tests, by the type of \<open>options.match\<close>. A string has been
  turned into a Buffer before; one left over passes none of the tests. A RegExp and a
  function are taken as pure tests of the buffer: the \<open>lastIndex\<close> that a \<open>/g\<close> or \<open>/y\<close>
  RegExp keeps between calls is not modelled.\<close>

fun test_match :: "matcher \<Rightarrow> bytes \<Rightarrow> bool" where
  "test_match (MatchBuf m) buf = buffer_includes buf m"
| "test_match (MatchRegExp re) buf = re buf"
| "test_match (MatchFn f) buf = f buf"
| "test_match (MatchStr s) buf = False"

text \<open>Lines 226-239: the response buffer and the exceeded flag after one chunk.\<close>

definition limit_buffer :: "nat \<Rightarrow> bytes \<Rightarrow> bool \<Rightarrow> bytes \<Rightarrow> bytes \<times> bool" where
  "limit_buffer m buf ex d =
     (let (b1, e1) =
        (if length buf + length d \<le> m then (buf @ d, ex)
         else if length buf \<ge> m \<and> length d > 0 then (buf, True)
         else if length d > 0 then (buf @ take (m - length buf) d, True)
         else (buf, ex))
      in if length b1 > m then (take m b1, True) else (b1, e1))"

text \<open>Lines 241-271, on the attempt's variables.\<close>

definition after_chunk :: "config \<Rightarrow> attempt \<Rightarrow> attempt" where
  "after_chunk cfg a =
     (let a1 = (case match cfg of
                  None \<Rightarrow> a
                | Some m \<Rightarrow>
                    if truthy_matcher (Some m) \<and>
                       test_match m (case responseBuffer a of None \<Rightarrow> [] | Some b \<Rightarrow> b)
                    then s_end (request_exit cfg (a\<lparr>didMatch := True\<rparr>))
                    else a)
      in if didExceedResponseBytes a1
         then s_end (request_exit cfg
                (a1\<lparr>lastErr := (case lastErr a1 of None \<Rightarrow> Some MaxResponseBytesExceeded | Some e \<Rightarrow> Some e)\<rparr>))
         else a1)"

definition onData :: "config \<Rightarrow> nat \<Rightarrow> bytes \<Rightarrow> probe_state \<Rightarrow> probe_state" where
  "onData cfg k d st =
     (let a = socks st ! k in
      if didPushResults a then st
      else
        (case responseBuffer a of
           None \<Rightarrow> st
         | Some buf \<Rightarrow>
             (case limit_buffer (maxResponseBytes cfg) buf (didExceedResponseBytes a) d of
                (b, e) \<Rightarrow>
                  st\<lparr>socks := (socks st)[k :=
                       after_chunk cfg (a\<lparr>responseBuffer := Some b, didExceedResponseBytes := e\<rparr>)]\<rparr>)))"

definition onError :: "nat \<Rightarrow> js_error \<Rightarrow> probe_state \<Rightarrow> probe_state" where
  "onError k e st =
     (let a = socks st ! k in
      st\<lparr>socks := (socks st)[k :=
           s_destroy (a\<lparr>lastErr := (case lastErr a of None \<Rightarrow> Some e | Some e0 \<Rightarrow> Some e0)\<rparr>)]\<rparr>)"

definition onFinish :: "nat \<Rightarrow> probe_state \<Rightarrow> probe_state" where
  "onFinish k st = st\<lparr>socks := (socks st)[k := s_destroy (socks st ! k)]\<rparr>"

definition onClose :: "config \<Rightarrow> nat \<Rightarrow> rat \<Rightarrow> probe_state \<Rightarrow> probe_state" where
  "onClose cfg k now st = probeResultCheck cfg k None now st"

definition onTimeout :: "config \<Rightarrow> nat \<Rightarrow> rat \<Rightarrow> probe_state \<Rightarrow> probe_state" where
  "onTimeout cfg k now st = probeResultCheck cfg k None now st"

subsection \<open>Plain mode handlers (lines 298-317)\<close>

definition plain_result :: "nat \<Rightarrow> rat option \<Rightarrow> js_error option \<Rightarrow> attempt_result" where
  "plain_result i t e =
     \<lparr> seq = i, conTime = None, time = t, match_r = None, err = e, bytes = None, data = None \<rparr>"

definition plain_push :: "config \<Rightarrow> nat \<Rightarrow> rat \<Rightarrow> rat option \<Rightarrow> js_error option \<Rightarrow> probe_state \<Rightarrow> probe_state" where
  "plain_push cfg k now t e st =
     check False cfg now
       (st\<lparr>socks := (socks st)[k := s_destroy (socks st ! k)],
           results := results st @ [plain_result (attempt_i st) t e],
           attempt_i := Suc (attempt_i st)\<rparr>)"

definition plainConnect :: "config \<Rightarrow> nat \<Rightarrow> rat \<Rightarrow> probe_state \<Rightarrow> probe_state" where
  "plainConnect cfg k now st = plain_push cfg k now (Some (now - start (socks st ! k))) None st"

definition plainError :: "config \<Rightarrow> nat \<Rightarrow> rat \<Rightarrow> js_error \<Rightarrow> probe_state \<Rightarrow> probe_state" where
  "plainError cfg k now e st = plain_push cfg k now None (Some e) st"

definition plainTimeout :: "config \<Rightarrow> nat \<Rightarrow> rat \<Rightarrow> probe_state \<Rightarrow> probe_state" where
  "plainTimeout cfg k now st = plain_push cfg k now None (Some RequestTimeout) st"

subsection \<open>The event loop\<close>

datatype event =
    Connect                 \<comment> \<open>the connect callback\<close>
  | Data bytes              \<comment> \<open>\<open>'data'\<close>\<close>
  | Error js_error          \<comment> \<open>\<open>'error'\<close>\<close>
  | Finish                  \<comment> \<open>\<open>'finish'\<close>\<close>
  | Close                   \<comment> \<open>\<open>'close'\<close>\<close>
  | Timeout                 \<comment> \<open>the socket's idle timeout, \<open>s.setTimeout\<close>\<close>
  | ResponseTimer           \<comment> \<open>the timer of \<open>responseTimeoutRef\<close>\<close>

text \<open>What Node's \<open>net.Socket\<close> and timers promise: a destroyed socket emits nothing but
  \<open>'close'\<close>, the connect callback runs at most once, data comes only after the
  connect, and a timer that was cleared or has fired does not fire. Nothing else is
  asked of the order of events here, so some lists of events are ones Node never
  produces; \<open>node_order\<close> below adds what is known of the order.\<close>

fun emitted :: "attempt \<Rightarrow> event \<Rightarrow> bool" where
  "emitted a Connect = (\<not> destroyed a \<and> \<not> connected a)"
| "emitted a (Data d) = (\<not> destroyed a \<and> connected a)"
| "emitted a (Error e) = (\<not> destroyed a)"
| "emitted a Finish = (\<not> destroyed a)"
| "emitted a Close = True"
| "emitted a Timeout = (\<not> destroyed a)"
| "emitted a ResponseTimer = (responseTimeoutRef a \<noteq> None)"

fun probe_handler :: "config \<Rightarrow> nat \<Rightarrow> rat \<Rightarrow> event \<Rightarrow> probe_state \<Rightarrow> probe_state" where
  "probe_handler cfg k now Connect st = onConnect cfg k now st"
| "probe_handler cfg k now (Data d) st = onData cfg k d st"
| "probe_handler cfg k now (Error e) st = onError k e st"
| "probe_handler cfg k now Finish st = onFinish k st"
| "probe_handler cfg k now Close st = onClose cfg k now st"
| "probe_handler cfg k now Timeout st = onTimeout cfg k now st"
| "probe_handler cfg k now ResponseTimer st = onResponseTimeout cfg k now st"

text \<open>Plain mode registers no \<open>'data'\<close>, \<open>'finish'\<close> or \<open>'close'\<close> listener and sets no
  response timer.\<close>

fun plain_handler :: "config \<Rightarrow> nat \<Rightarrow> rat \<Rightarrow> event \<Rightarrow> probe_state \<Rightarrow> probe_state" where
  "plain_handler cfg k now Connect st = plainConnect cfg k now st"
| "plain_handler cfg k now (Error e) st = plainError cfg k now e st"
| "plain_handler cfg k now Timeout st = plainTimeout cfg k now st"
| "plain_handler cfg k now ev st = st"

text \<open>One turn of the event loop: event \<open>ev\<close> of socket \<open>k\<close>, delivered at time \<open>now\<close>.\<close>

fun emit :: "bool \<Rightarrow> config \<Rightarrow> probe_state \<Rightarrow> nat \<times> rat \<times> event \<Rightarrow> probe_state" where
  "emit isP cfg st (k, now, ev) =
     (if k < length (socks st) \<and> emitted (socks st ! k) ev
      then (if isP then probe_handler cfg k now ev st else plain_handler cfg k now ev st)
      else st)"

text \<open>Lines 46-47 and 319: \<open>i = 0\<close>, \<open>results = []\<close>, and the first \<open>connect\<close>, which is
  called without asking \<open>check\<close>.\<close>

definition probe_start :: "bool \<Rightarrow> config \<Rightarrow> rat \<Rightarrow> probe_state" where
  "probe_start isP cfg t0 =
     connect isP cfg t0
       \<lparr> attempt_i = 0, results = [], socks = [], delivered = [], uncaught = [] \<rparr>"

definition run :: "bool \<Rightarrow> config \<Rightarrow> rat \<Rightarrow> (nat \<times> rat \<times> event) list \<Rightarrow> probe_state" where
  "run isP cfg t0 evs = foldl (emit isP cfg) (probe_start isP cfg t0) evs"

text \<open>\<open>probe(options, callback)\<close>: \<open>has_callback\<close> says whether \<open>callback\<close> is a function.\<close>

definition probe :: "caller_options \<Rightarrow> bool \<Rightarrow> rat \<Rightarrow> (nat \<times> rat \<times> event) list \<Rightarrow> js_exception + probe_state" where
  "probe opts has_callback t0 evs =
     (if has_callback then Inr (run (isProbe opts) (merge_defaults opts) t0 evs)
      else Inl CallbackRequired)"

text \<open>\<open>ping\<close>: \<open>probe({ attempts: 10, ...options }, callback)\<close>.\<close>

definition ping :: "caller_options \<Rightarrow> bool \<Rightarrow> rat \<Rightarrow> (nat \<times> rat \<times> event) list \<Rightarrow> js_exception + probe_state" where
  "ping opts has_callback t0 evs =
     probe (opts\<lparr>o_attempts := Some (or_default (o_attempts opts) 10)\<rparr>) has_callback t0 evs"

subsection \<open>The order in which Node delivers events\<close>

text \<open>\<open>emitted\<close> admits more orders than Node produces, which is sound for what is stated
  of every list of events. What a particular event records is stated under three further
  facts about one socket: \<open>'close'\<close> follows the destruction of the socket; \<open>'finish'\<close>
  follows an \<open>end()\<close>, ours or the one Node makes for a connected socket whose peer has
  closed; and the idle timeout does not fire while the response timer is pending, because
  line 203 sets the response timer before line 291 sets the idle one, both for
  \<open>options.timeout\<close>, and activity on the socket only postpones the idle one (plain mode
  sets no response timer).\<close>

fun node_order :: "attempt \<Rightarrow> event \<Rightarrow> bool" where
  "node_order a Close = destroyed a"
| "node_order a Finish = (ended a \<or> connected a)"
| "node_order a Timeout = (responseTimeoutRef a = None)"
| "node_order a ev = True"

fun node_emit :: "bool \<Rightarrow> config \<Rightarrow> probe_state \<Rightarrow> nat \<times> rat \<times> event \<Rightarrow> probe_state" where
  "node_emit isP cfg st (k, now, ev) =
     (if k < length (socks st) \<and> emitted (socks st ! k) ev \<and> node_order (socks st ! k) ev
      then (if isP then probe_handler cfg k now ev st else plain_handler cfg k now ev st)
      else st)"

definition node_run :: "bool \<Rightarrow> config \<Rightarrow> rat \<Rightarrow> (nat \<times> rat \<times> event) list \<Rightarrow> probe_state" where
  "node_run isP cfg t0 evs = foldl (node_emit isP cfg) (probe_start isP cfg t0) evs"

subsection \<open>Events that finish an attempt\<close>

text \<open>The events whose handler pushes the result of the attempt: the three handlers of
  lines 298-317 in plain mode, the three callers of \<open>probeResultCheck\<close> in probe mode.\<close>

fun finishing :: "bool \<Rightarrow> event \<Rightarrow> bool" where
  "finishing isP Connect = (\<not> isP)"
| "finishing isP (Error e) = (\<not> isP)"
| "finishing isP Timeout = True"
| "finishing isP Close = isP"
| "finishing isP ResponseTimer = isP"
| "finishing isP ev = False"

text \<open>The timeout that ends an attempt when nothing else does, and the events that let the
  attempts from \<open>i\<close> up to \<open>n\<close> time out one after the other.\<close>

definition timeout_event :: "bool \<Rightarrow> event" where
  "timeout_event isP = (if isP then ResponseTimer else Timeout)"

definition finish_rest :: "bool \<Rightarrow> nat \<Rightarrow> nat \<Rightarrow> rat \<Rightarrow> (nat \<times> rat \<times> event) list" where
  "finish_rest isP i n now = map (\<lambda>j. (j, now, timeout_event isP)) [i..<n]"

text \<open>What the handler of each probe-mode event does to the variables of its own attempt,
  written out event by event; \<open>handler_step\<close> below shows that the handlers do exactly
  this to their socket and leave the others alone.\<close>

fun attempt_step :: "config \<Rightarrow> rat \<Rightarrow> event \<Rightarrow> attempt \<Rightarrow> attempt" where
  "attempt_step cfg now Connect a =
     (s_write (request cfg) (a\<lparr>connected := True, connectTime := Some (now - start a)\<rparr>))\<lparr>responseBuffer := Some []\<rparr>"
| "attempt_step cfg now (Data d) a =
     (if didPushResults a then a
      else (case responseBuffer a of
              None \<Rightarrow> a
            | Some buf \<Rightarrow>
               (case limit_buffer (maxResponseBytes cfg) buf (didExceedResponseBytes a) d of
                  (b, e) \<Rightarrow> after_chunk cfg (a\<lparr>responseBuffer := Some b, didExceedResponseBytes := e\<rparr>))))"
| "attempt_step cfg now (Error e) a =
     s_destroy (a\<lparr>lastErr := (case lastErr a of None \<Rightarrow> Some e | Some e0 \<Rightarrow> Some e0)\<rparr>)"
| "attempt_step cfg now Finish a = s_destroy a"
| "attempt_step cfg now Close a =
     (if didPushResults a then a\<lparr>responseTimeoutRef := None\<rparr>
      else s_end (request_exit cfg (a\<lparr>responseTimeoutRef := None, didPushResults := True\<rparr>)))"
| "attempt_step cfg now Timeout a =
     (if didPushResults a then a\<lparr>responseTimeoutRef := None\<rparr>
      else s_end (request_exit cfg (a\<lparr>responseTimeoutRef := None, didPushResults := True\<rparr>)))"
| "attempt_step cfg now ResponseTimer a =
     (if didPushResults a then a\<lparr>responseTimeoutRef := None\<rparr>
      else s_end (request_exit cfg
             (a\<lparr>lastErr := (case lastErr a of None \<Rightarrow> Some ResponseTimeout | Some e \<Rightarrow> Some e),
                responseTimeoutRef := None, didPushResults := True\<rparr>)))"

subsection \<open>The data an attempt has taken in\<close>

text \<open>The chunks that the \<open>'data'\<close> listener of attempt \<open>k\<close> has worked on along a list of
  events: those delivered to socket \<open>k\<close> while the attempt had not pushed its result. A
  chunk that arrives later is dropped by the first line of \<open>onData\<close>.\<close>

fun consumed_chunk :: "nat \<Rightarrow> probe_state \<Rightarrow> nat \<times> rat \<times> event \<Rightarrow> bytes list" where
  "consumed_chunk k st (k', now, Data d) =
     (if k' = k \<and> k < length (socks st) \<and> emitted (socks st ! k) (Data d)
         \<and> \<not> didPushResults (socks st ! k)
      then [d] else [])"
| "consumed_chunk k st (k', now, ev) = []"

fun inbound_from :: "config \<Rightarrow> nat \<Rightarrow> probe_state \<Rightarrow> (nat \<times> rat \<times> event) list \<Rightarrow> bytes list" where
  "inbound_from cfg k st [] = []"
| "inbound_from cfg k st (e # es) = consumed_chunk k st e @ inbound_from cfg k (emit True cfg st e) es"

definition inbound :: "config \<Rightarrow> rat \<Rightarrow> (nat \<times> rat \<times> event) list \<Rightarrow> nat \<Rightarrow> bytes list" where
  "inbound cfg t0 evs k = inbound_from cfg k (probe_start True cfg t0) evs"

subsection \<open>Invariants of the sequencer\<close>

text \<open>An attempt is finished when it has pushed its result: probe mode remembers that in
  \<open>didPushResults\<close>; plain mode pushes and destroys the socket in the same handler.\<close>

definition finalized :: "bool \<Rightarrow> attempt \<Rightarrow> bool" where
  "finalized isP a = (if isP then didPushResults a else destroyed a)"

text \<open>What holds between the counter, the results, the sockets and the callback after
  any number of events.\<close>

definition seq_inv :: "bool \<Rightarrow> config \<Rightarrow> probe_state \<Rightarrow> bool" where
  "seq_inv isP cfg s \<longleftrightarrow>
     attempt_i s = length (results s) \<and>
     (attempt_i s \<le> 1 \<or> attempt_i s \<le> attempts cfg) \<and>
     (\<forall>j<length (results s). seq (results s ! j) = j) \<and>
     length (socks s) = (if attempt_i s = 0 \<or> attempt_i s < attempts cfg then Suc (attempt_i s) else attempt_i s) \<and>
     (\<forall>k<length (socks s). finalized isP (socks s ! k) = (k < attempt_i s)) \<and>
     uncaught s = [] \<and>
     (if length (socks s) = attempt_i s
      then (\<exists>r. delivered s = [r] \<and> rep_results r = results s)
      else delivered s = [])"

subsection \<open>Invariants of one attempt\<close>

text \<open>What the variables of one probe-mode attempt satisfy at every moment: no buffer
  before the connect, a buffer within the cap after it, and the exceeded flag only with a
  full buffer and the error it latches.\<close>

definition attempt_inv :: "config \<Rightarrow> attempt \<Rightarrow> bool" where
  "attempt_inv cfg a \<longleftrightarrow>
     (responseBuffer a = None \<longrightarrow>
        connectTime a = None \<and> \<not> connected a \<and> \<not> didMatch a \<and> \<not> didExceedResponseBytes a) \<and>
     (\<forall>b. responseBuffer a = Some b \<longrightarrow>
        length b \<le> maxResponseBytes cfg \<and> connectTime a \<noteq> None \<and> connected a \<and>
        (didExceedResponseBytes a \<longrightarrow>
           length b = maxResponseBytes cfg \<and> lastErr a = Some MaxResponseBytesExceeded)) \<and>
     (lastErr a \<noteq> None \<longrightarrow> destroyed a \<or> didPushResults a \<or> didExceedResponseBytes a)"

definition bounded_result :: "config \<Rightarrow> attempt_result \<Rightarrow> bool" where
  "bounded_result cfg r \<longleftrightarrow>
     (case bytes r of None \<Rightarrow> True | Some n \<Rightarrow> n \<le> maxResponseBytes cfg) \<and>
     (case data r of None \<Rightarrow> True | Some d \<Rightarrow> length d \<le> maxResponseBytes cfg)"

definition probe_inv :: "config \<Rightarrow> probe_state \<Rightarrow> bool" where
  "probe_inv cfg s \<longleftrightarrow>
     (\<forall>k<length (socks s). attempt_inv cfg (socks s ! k)) \<and>
     (\<forall>j<length (results s). bounded_result cfg (results s ! j))"

text \<open>Plain mode results carry neither \<open>match\<close> nor \<open>bytes\<close> nor \<open>data\<close>, and its report
  has no probe statistics.\<close>

definition plain_inv :: "probe_state \<Rightarrow> bool" where
  "plain_inv s \<longleftrightarrow>
     (\<forall>r \<in> set (results s). match_r r = None \<and> bytes r = None \<and> data r = None) \<and>
     (\<forall>rep \<in> set (delivered s). probe_part rep = None)"

text \<open>The response buffer is the received data cut at the cap, and the exceeded flag says
  whether anything was cut.\<close>

definition fed :: "config \<Rightarrow> nat \<Rightarrow> probe_state \<Rightarrow> bytes list \<Rightarrow> bool" where
  "fed cfg k s ds \<longleftrightarrow>
     (if k < length (socks s) \<and> connected (socks s ! k)
      then responseBuffer (socks s ! k) = Some (take (maxResponseBytes cfg) (concat ds)) \<and>
           didExceedResponseBytes (socks s ! k) = (maxResponseBytes cfg < length (concat ds))
      else ds = [])"

text \<open>Facts about every socket of an invocation: the response timer of a probe-mode
  attempt is pending until the attempt has pushed, and, in Node's order, a destroyed
  socket has met an error or was ended, and only a finished or connected one was ended.\<close>

definition all_socks :: "(attempt \<Rightarrow> bool) \<Rightarrow> probe_state \<Rightarrow> bool" where
  "all_socks P s \<longleftrightarrow> (\<forall>k<length (socks s). P (socks s ! k))"

definition timer_pending :: "attempt \<Rightarrow> bool" where
  "timer_pending a \<longleftrightarrow> didPushResults a \<or> responseTimeoutRef a \<noteq> None"

definition closing_inv :: "attempt \<Rightarrow> bool" where
  "closing_inv a \<longleftrightarrow>
     (destroyed a \<longrightarrow> lastErr a \<noteq> None \<or> ended a \<or> connected a) \<and>
     (ended a \<longrightarrow> didPushResults a \<or> connected a)"

subsection \<open>Example inputs\<close>

text \<open>Caller options and event lists on which the model is run below. An event is
  (socket, clock reading in milliseconds, what happened).\<close>

definition example_options :: caller_options where
  "example_options =
     \<lparr> o_address = None, o_port = Some 7, o_attempts = Some 2, o_timeout = None,
       o_responseTimeout = Some 200, o_encoding = None, o_request = Some (Str ''PING''),
       o_exitRequest = Some (Str ''QUIT''), o_match = Some (MatchStr ''PONG''),
       o_maxResponseBytes = Some 6, o_capture = Some True, o_noDelay = None \<rparr>"

definition example_config :: config where
  "example_config = merge_defaults example_options"

definition race_trace :: "(nat \<times> rat \<times> event) list" where
  "race_trace = [(0, 2, Connect), (0, 5000, ResponseTimer), (0, 5001, Timeout), (0, 5002, Finish)]"

definition zero_attempts_options :: caller_options where
  "zero_attempts_options = example_options\<lparr>o_attempts := Some 0\<rparr>"

definition two_attempts_trace :: "(nat \<times> rat \<times> event) list" where
  "two_attempts_trace =
     [(0, 2, Connect), (0, 3, Data ''PONG''), (0, 4, Finish), (0, 5, Close),
      (1, 6, Error (SocketError ''ECONNRESET'')), (1, 7, Close)]"

definition one_attempt_trace :: "(nat \<times> rat \<times> event) list" where
  "one_attempt_trace = [(0, 2, Connect), (0, 3, Data ''PONG''), (0, 4, Finish), (0, 5, Close)]"

definition plain_options :: caller_options where
  "plain_options =
     \<lparr> o_address = None, o_port = Some 7, o_attempts = Some 3, o_timeout = None,
       o_responseTimeout = None, o_encoding = None, o_request = None,
       o_exitRequest = None, o_match = None,
       o_maxResponseBytes = None, o_capture = None, o_noDelay = None \<rparr>"

definition falsy_options :: caller_options where
  "falsy_options = plain_options\<lparr>o_request := Some (Str []), o_capture := Some False, o_maxResponseBytes := Some 0\<rparr>"

definition drop_trace :: "(nat \<times> rat \<times> event) list" where
  "drop_trace = [(0, 5, Connect), (1, 6, Error (SocketError ''ECONNREFUSED'')), (2, 9, Connect)]"

definition overflow_trace :: "(nat \<times> rat \<times> event) list" where
  "overflow_trace =
     [(0, 2, Connect), (0, 3, Data ''0123''), (0, 4, Data ''456789''), (0, 5, Finish), (0, 6, Close)]"

definition refused_trace :: "(nat \<times> rat \<times> event) list" where
  "refused_trace = [(0, 1, Error (SocketError ''ECONNREFUSED'')), (0, 2, Close)]"

definition overflow_prefix :: "(nat \<times> rat \<times> event) list" where
  "overflow_prefix = [(0, 2, Connect), (0, 3, Data ''0123''), (0, 4, Data ''456789'')]"


section \<open>Proofs\<close>

subsection \<open>The sequencer\<close>

lemma aggregate_Cons:
  "rs \<noteq> [] \<Longrightarrow> \<exists>r. aggregate isP cfg rs = Inr r \<and> rep_results r = rs"
  by (cases rs) (simp_all add: aggregate_def)

lemma check_fields:
  "results (check isP cfg now st) = results st"
  "attempt_i (check isP cfg now st) = attempt_i st"
  by (simp_all add: check_def connect_def split: sum.splits)

lemma check_more:
  "attempt_i st < attempts cfg \<Longrightarrow> check isP cfg now st = st\<lparr>socks := socks st @ [new_attempt isP cfg now]\<rparr>"
  "\<not> attempt_i st < attempts cfg \<Longrightarrow> results st \<noteq> [] \<Longrightarrow>
     \<exists>r. check isP cfg now st = st\<lparr>delivered := delivered st @ [r]\<rparr> \<and> rep_results r = results st"
  using aggregate_Cons[of "results st" isP cfg]
  by (auto simp add: check_def connect_def)

lemma seq_inv_start: "seq_inv isP cfg (probe_start isP cfg t0)"
  by (simp add: seq_inv_def probe_start_def connect_def new_attempt_def finalized_def)

text \<open>Pushing one result from the current socket keeps the invariant.\<close>

lemma seq_inv_push:
  assumes inv: "seq_inv isP cfg st" and k: "k < length (socks st)"
    and nf: "\<not> finalized isP (socks st ! k)"
    and fa: "finalized isP a" and sr: "seq r = attempt_i st"
  shows "seq_inv isP cfg (check isP cfg now
          (st\<lparr>socks := (socks st)[k := a], results := results st @ [r], attempt_i := Suc (attempt_i st)\<rparr>))"
proof -
  let ?st1 = "st\<lparr>socks := (socks st)[k := a], results := results st @ [r], attempt_i := Suc (attempt_i st)\<rparr>"
  define n where "n = attempt_i st"
  from inv have lr: "length (results st) = n" and unc: "uncaught st = []"
    and sq: "\<forall>j<n. seq (results st ! j) = j"
    and fin: "\<forall>k'<length (socks st). finalized isP (socks st ! k') = (k' < n)"
    by (simp_all add: seq_inv_def n_def)
  from fin k nf have kn: "n \<le> k" by auto
  from inv have ls: "length (socks st) = (if n = 0 \<or> n < attempts cfg then Suc n else n)"
    by (simp add: seq_inv_def n_def)
  with k kn have len: "length (socks st) = Suc n" and cond: "n = 0 \<or> n < attempts cfg"
    by (auto split: if_splits)
  from len k kn have ki: "k = n" by simp
  from inv len have del: "delivered st = []"
    by (simp add: seq_inv_def n_def)
  from cond have bnd: "Suc n \<le> 1 \<or> Suc n \<le> attempts cfg" by arith
  have sq': "\<forall>j<Suc n. seq ((results st @ [r]) ! j) = j"
    using sq sr lr by (simp add: nth_append n_def less_Suc_eq)
  show ?thesis
  proof (cases "Suc n < attempts cfg")
    case True
    then have eq: "check isP cfg now ?st1 = ?st1\<lparr>socks := socks ?st1 @ [new_attempt isP cfg now]\<rparr>"
      using check_more(1)[of ?st1 cfg isP now] by (simp add: n_def)
    have f': "\<forall>k'<Suc (Suc n). finalized isP (((socks st)[k := a] @ [new_attempt isP cfg now]) ! k') = (k' < Suc n)"
      using fin fa len ki
      by (auto simp: nth_append nth_list_update finalized_def new_attempt_def less_Suc_eq)
    show ?thesis unfolding eq seq_inv_def
      using lr unc sq' f' len del True bnd by (simp add: n_def[symmetric])
  next
    case False
    then obtain rp where eq: "check isP cfg now ?st1 = ?st1\<lparr>delivered := delivered ?st1 @ [rp]\<rparr>"
      and rp: "rep_results rp = results ?st1"
      using check_more(2)[of ?st1 cfg isP now] by (auto simp: n_def)
    have f': "\<forall>k'<Suc n. finalized isP ((socks st)[k := a] ! k') = (k' < Suc n)"
      using fin fa len ki by (auto simp: nth_list_update less_Suc_eq)
    show ?thesis unfolding eq seq_inv_def
      using lr unc sq' f' len del False bnd rp by (simp add: n_def[symmetric])
  qed
qed

text \<open>So does changing one socket without touching its finished flag.\<close>

lemma seq_inv_local:
  assumes inv: "seq_inv isP cfg st" and k: "k < length (socks st)"
    and fa: "finalized isP a = finalized isP (socks st ! k)"
  shows "seq_inv isP cfg (st\<lparr>socks := (socks st)[k := a]\<rparr>)"
  using assms by (auto simp: seq_inv_def nth_list_update)

lemmas sock_ops = s_write_def s_end_def s_destroy_def request_exit_def

lemma didPush_request_exit [simp]: "didPushResults (request_exit cfg a) = didPushResults a"
  by (simp add: sock_ops split: option.splits)

lemma didPush_s_end [simp]: "didPushResults (s_end a) = didPushResults a"
  by (simp add: sock_ops)

lemma didPush_after_chunk [simp]: "didPushResults (after_chunk cfg a) = didPushResults a"
  by (simp add: after_chunk_def Let_def split: option.splits)

lemma seq_pushed_result [simp]: "seq (pushed_result cfg a i now res) = i"
  by (simp add: pushed_result_def)

lemma seq_inv_prc:
  assumes inv: "seq_inv True cfg st" and k: "k < length (socks st)"
  shows "seq_inv True cfg (probeResultCheck cfg k res now st)"
proof (cases "didPushResults (socks st ! k)")
  case True
  then show ?thesis using inv k
    by (simp add: probeResultCheck_def Let_def seq_inv_local finalized_def)
next
  case False
  then show ?thesis using k
    by (simp add: probeResultCheck_def Let_def)
       (rule seq_inv_push[OF inv k], simp_all add: finalized_def)
qed

lemma seq_inv_probe_handler:
  assumes inv: "seq_inv True cfg st" and k: "k < length (socks st)"
  shows "seq_inv True cfg (probe_handler cfg k now ev st)"
proof (cases ev)
  case Connect
  then show ?thesis using inv k
    by (simp add: onConnect_def Let_def seq_inv_local finalized_def sock_ops)
next
  case (Data d)
  then show ?thesis using inv k
    by (auto simp add: onData_def Let_def seq_inv_local finalized_def split: option.splits prod.splits)
next
  case (Error e)
  then show ?thesis using inv k
    by (simp add: onError_def Let_def seq_inv_local finalized_def sock_ops)
next
  case Finish
  then show ?thesis using inv k
    by (simp add: onFinish_def Let_def seq_inv_local finalized_def sock_ops)
next
  case Close
  then show ?thesis using inv k by (simp add: onClose_def seq_inv_prc)
next
  case Timeout
  then show ?thesis using inv k by (simp add: onTimeout_def seq_inv_prc)
next
  case ResponseTimer
  show ?thesis
  proof (cases "didPushResults (socks st ! k)")
    case True
    then show ?thesis using inv k ResponseTimer
      by (simp add: onResponseTimeout_def Let_def seq_inv_local finalized_def)
  next
    case False
    let ?a = "(socks st ! k)\<lparr>responseTimeoutRef := None\<rparr>"
    let ?st1 = "st\<lparr>socks := (socks st)[k := ?a\<lparr>lastErr := (case lastErr ?a of None \<Rightarrow> Some ResponseTimeout | Some e \<Rightarrow> Some e)\<rparr>]\<rparr>"
    have "seq_inv True cfg ?st1"
      by (rule seq_inv_local[OF inv k]) (simp add: finalized_def)
    moreover have "k < length (socks ?st1)" using k by simp
    ultimately have "seq_inv True cfg (probeResultCheck cfg k (Some ResponseTimeout) now ?st1)"
      by (rule seq_inv_prc)
    then show ?thesis using False ResponseTimer
      by (simp add: onResponseTimeout_def Let_def)
  qed
qed

lemma seq_inv_plain_push:
  assumes inv: "seq_inv False cfg st" and k: "k < length (socks st)"
    and nd: "\<not> destroyed (socks st ! k)"
  shows "seq_inv False cfg (plain_push cfg k now t e st)"
  unfolding plain_push_def
  by (rule seq_inv_push[OF inv k]) (simp_all add: finalized_def nd s_destroy_def plain_result_def)

lemma seq_inv_plain_handler:
  assumes inv: "seq_inv False cfg st" and k: "k < length (socks st)"
    and em: "emitted (socks st ! k) ev"
  shows "seq_inv False cfg (plain_handler cfg k now ev st)"
  using assms
  by (cases ev) (simp_all add: plainConnect_def plainError_def plainTimeout_def seq_inv_plain_push)

lemma seq_inv_emit: "seq_inv isP cfg st \<Longrightarrow> seq_inv isP cfg (emit isP cfg st e)"
  by (cases e; cases isP) (simp_all add: seq_inv_probe_handler seq_inv_plain_handler)

lemma seq_inv_foldl: "seq_inv isP cfg st \<Longrightarrow> seq_inv isP cfg (foldl (emit isP cfg) st evs)"
  by (induction evs arbitrary: st) (simp_all add: seq_inv_emit)

lemma seq_inv_run: "seq_inv isP cfg (run isP cfg t0 evs)"
  unfolding run_def by (rule seq_inv_foldl) (rule seq_inv_start)

lemma prc_guard:
  "didPushResults (socks st ! k) \<Longrightarrow>
   probeResultCheck cfg k res now st = st\<lparr>socks := (socks st)[k := (socks st ! k)\<lparr>responseTimeoutRef := None\<rparr>]\<rparr>"
  by (simp add: probeResultCheck_def Let_def)

lemma prc_fresh:
  assumes "\<not> didPushResults (socks st ! k)" and "k < length (socks st)"
  shows "\<exists>a. results (probeResultCheck cfg k res now st) = results st @ [pushed_result cfg a (attempt_i st) now res]
       \<and> a = s_end (request_exit cfg ((socks st ! k)\<lparr>responseTimeoutRef := None, didPushResults := True\<rparr>))
       \<and> socks (probeResultCheck cfg k res now st) ! k = a
       \<and> attempt_i (probeResultCheck cfg k res now st) = Suc (attempt_i st)"
  using assms
  by (simp add: probeResultCheck_def Let_def check_fields check_def connect_def nth_append split: sum.splits)

text \<open>Once an attempt has pushed, none of its events changes what the invocation has recorded.\<close>
lemma finalized_noop:
  assumes "k < length (socks st)" and "didPushResults (socks st ! k)"
  shows "results (probe_handler cfg k now ev st) = results st
       \<and> attempt_i (probe_handler cfg k now ev st) = attempt_i st
       \<and> delivered (probe_handler cfg k now ev st) = delivered st
       \<and> uncaught (probe_handler cfg k now ev st) = uncaught st
       \<and> length (socks (probe_handler cfg k now ev st)) = length (socks st)
       \<and> didPushResults (socks (probe_handler cfg k now ev st) ! k)"
  using assms
  by (cases ev)
     (simp_all add: onConnect_def onData_def onError_def onFinish_def onClose_def onTimeout_def
        onResponseTimeout_def prc_guard Let_def sock_ops)

lemma prc_pushes:
  assumes k: "k < length (socks st)" and nf: "\<not> didPushResults (socks st ! k)"
  shows "\<exists>r. results (probeResultCheck cfg k res now st) = results st @ [r] \<and> seq r = attempt_i st
       \<and> didPushResults (socks (probeResultCheck cfg k res now st) ! k)"
proof -
  from prc_fresh[OF nf k, of cfg res now] obtain a' where
    "results (probeResultCheck cfg k res now st) = results st @ [pushed_result cfg a' (attempt_i st) now res]"
    "a' = s_end (request_exit cfg ((socks st ! k)\<lparr>responseTimeoutRef := None, didPushResults := True\<rparr>))"
    "socks (probeResultCheck cfg k res now st) ! k = a'" by blast
  then show ?thesis by simp
qed

lemma trigger_pushes:
  assumes k: "k < length (socks st)" and nf: "\<not> didPushResults (socks st ! k)"
    and ev: "ev = Close \<or> ev = Timeout \<or> ev = ResponseTimer"
  shows "\<exists>r. results (probe_handler cfg k now ev st) = results st @ [r] \<and> seq r = attempt_i st
       \<and> didPushResults (socks (probe_handler cfg k now ev st) ! k)"
  using ev
proof (elim disjE)
  assume "ev = Close" then show ?thesis using prc_pushes[OF k nf] by (simp add: onClose_def)
next
  assume "ev = Timeout" then show ?thesis using prc_pushes[OF k nf] by (simp add: onTimeout_def)
next
  assume e: "ev = ResponseTimer"
  let ?a = "(socks st ! k)\<lparr>responseTimeoutRef := None\<rparr>"
  let ?st1 = "st\<lparr>socks := (socks st)[k := ?a\<lparr>lastErr := (case lastErr ?a of None \<Rightarrow> Some ResponseTimeout | Some e \<Rightarrow> Some e)\<rparr>]\<rparr>"
  have "k < length (socks ?st1)" "\<not> didPushResults (socks ?st1 ! k)" using k nf by simp_all
  from prc_pushes[OF this, of cfg "Some ResponseTimeout" now] show ?thesis using e nf
    by (simp add: onResponseTimeout_def Let_def)
qed

subsection \<open>Evaluating the model on the examples\<close>

lemmas run_simps = run_def probe_start_def connect_def new_attempt_def check_def aggregate_def
  probeResultCheck_def onResponseTimeout_def onConnect_def onData_def onError_def onFinish_def
  onClose_def onTimeout_def plain_push_def plainConnect_def plainError_def plainTimeout_def
  plain_result_def pushed_result_def after_chunk_def limit_buffer_def request_exit_def
  s_write_def s_end_def s_destroy_def Let_def

lemma example_config_eq:
  "example_config = \<lparr> address = ''localhost'', port = 7, attempts = 2, timeout = 5000,
      responseTimeout = Some 200, encoding = ''utf8'', request = ''PING'',
      exitRequest = Some ''QUIT'', match = Some (MatchBuf ''PONG''), maxResponseBytes = 6,
      capture = True, noDelay = True \<rparr>"
  by (simp add: example_config_def example_options_def merge_defaults_def Buffer_from_def)

lemma example_options_probe: "isProbe example_options" "isProbe zero_attempts_options"
  by (simp_all add: isProbe_def example_options_def zero_attempts_options_def)

lemma zero_attempts_config_eq:
  "merge_defaults zero_attempts_options = example_config\<lparr>attempts := 0\<rparr>"
  by (simp add: example_config_def example_options_def zero_attempts_options_def merge_defaults_def Let_def)

lemma plain_config_eq:
  "merge_defaults plain_options = \<lparr> address = ''localhost'', port = 7, attempts = 3, timeout = 5000,
      responseTimeout = None, encoding = ''utf8'', request = [],
      exitRequest = None, match = None, maxResponseBytes = 50000,
      capture = False, noDelay = True \<rparr>"
  by (simp add: plain_options_def merge_defaults_def Let_def)

lemma race_state:
  "length (socks (run True example_config 0 race_trace)) = 2"
  "didPushResults (socks (run True example_config 0 race_trace) ! 0)"
  "length (results (run True example_config 0 race_trace)) = 1"
  by (simp_all add: example_config_eq race_trace_def run_simps)

lemma two_attempts_state:
  "attempt_i (run True example_config 0 two_attempts_trace) = 2"
  by (simp add: example_config_eq two_attempts_trace_def run_simps)

lemma one_attempt_state:
  "didPushResults (socks (run True (example_config\<lparr>attempts := 0\<rparr>) 0 one_attempt_trace) ! 0)"
  by (simp add: example_config_eq one_attempt_trace_def run_simps)

subsection \<open>Claims about the sequencer and the finalize guard\<close>

text \<open>
  Claim C1. In probe mode, whatever events have been delivered so far and in whatever
  order, attempt \<open>k\<close> has pushed exactly one result if its guard flag is set and none
  otherwise, and the result at position \<open>j\<close> is the one of attempt \<open>j\<close>. Once the flag
  is set, no event of that attempt changes the results, the counter or what the
  callback has received. While it is not set, the first close, idle timeout or
  response timer that is delivered appends exactly one result, numbered \<open>k\<close>, and sets
  the flag.
\<close>

theorem finalize_exactly_once:
  assumes s: "s = run True cfg t0 evs" and k: "k < length (socks s)"
  shows "(didPushResults (socks s ! k) \<longleftrightarrow> k < length (results s))
       \<and> (\<forall>j<length (results s). seq (results s ! j) = j)
       \<and> (didPushResults (socks s ! k) \<longrightarrow>
            results (emit True cfg s (k, now, ev)) = results s
          \<and> attempt_i (emit True cfg s (k, now, ev)) = attempt_i s
          \<and> delivered (emit True cfg s (k, now, ev)) = delivered s
          \<and> didPushResults (socks (emit True cfg s (k, now, ev)) ! k))
       \<and> (\<not> didPushResults (socks s ! k) \<and> (ev = Close \<or> ev = Timeout \<or> ev = ResponseTimer)
            \<and> emitted (socks s ! k) ev \<longrightarrow>
            (\<exists>r. results (emit True cfg s (k, now, ev)) = results s @ [r] \<and> seq r = k)
          \<and> didPushResults (socks (emit True cfg s (k, now, ev)) ! k))"
proof -
  have inv: "seq_inv True cfg s" unfolding s by (rule seq_inv_run)
  have a: "didPushResults (socks s ! k) \<longleftrightarrow> k < length (results s)"
    using inv k by (simp add: seq_inv_def finalized_def)
  have b: "\<forall>j<length (results s). seq (results s ! j) = j"
    using inv by (simp add: seq_inv_def)
  have c: "didPushResults (socks s ! k) \<longrightarrow>
            results (emit True cfg s (k, now, ev)) = results s
          \<and> attempt_i (emit True cfg s (k, now, ev)) = attempt_i s
          \<and> delivered (emit True cfg s (k, now, ev)) = delivered s
          \<and> didPushResults (socks (emit True cfg s (k, now, ev)) ! k)"
    using finalized_noop[OF k, of cfg now ev] by simp
  have ki: "\<not> didPushResults (socks s ! k) \<Longrightarrow> attempt_i s = k"
    using inv k by (auto simp: seq_inv_def finalized_def split: if_splits)
  have d: "\<not> didPushResults (socks s ! k) \<and> (ev = Close \<or> ev = Timeout \<or> ev = ResponseTimer)
            \<and> emitted (socks s ! k) ev \<longrightarrow>
            (\<exists>r. results (emit True cfg s (k, now, ev)) = results s @ [r] \<and> seq r = k)
          \<and> didPushResults (socks (emit True cfg s (k, now, ev)) ! k)"
    using trigger_pushes[OF k, of ev cfg now] ki k by auto
  from a b c d show ?thesis by blast
qed

theorem finalize_exactly_once_witness:
  "0 < length (socks (run True example_config 0 race_trace))
   \<and> didPushResults (socks (run True example_config 0 race_trace) ! 0)
   \<and> length (results (run True example_config 0 race_trace)) = 1
   \<and> results (emit True example_config (run True example_config 0 race_trace) (0, 5003, Close))
       = results (run True example_config 0 race_trace)"
proof -
  have k: "0 < length (socks (run True example_config 0 race_trace))"
    and d: "didPushResults (socks (run True example_config 0 race_trace) ! 0)"
    and l: "length (results (run True example_config 0 race_trace)) = 1"
    by (simp_all add: race_state)
  from finalize_exactly_once[OF refl k, of 5003 Close] d l k show ?thesis by blast
qed

lemma aggregate_empty: "aggregate isP cfg [] = Inl TypeError"
  by (simp add: aggregate_def)

subsection \<open>The response timer and the aggregate\<close>

text \<open>
  Claim C3. The claim has the response timer set for \<open>responseTimeout\<close> when the caller
  gives one. The source never reads \<open>options.responseTimeout\<close>: the timer of every
  probe-mode attempt is set for \<open>options.timeout\<close>. With \<open>responseTimeout: 200\<close> and no
  \<open>timeout\<close>, the timer of the first attempt is pending for 5000 milliseconds.
\<close>

theorem response_timer_set_with_timeout:
  "responseTimeoutRef (socks (probe_start True cfg t0) ! 0) = Some (timeout cfg)
   \<and> o_responseTimeout example_options = Some 200
   \<and> map_sum id (\<lambda>s. map responseTimeoutRef (socks s)) (probe example_options True 0 []) = Inr [Some 5000]"
proof -
  have a: "responseTimeoutRef (socks (probe_start True cfg t0) ! 0) = Some (timeout cfg)"
    by (simp add: probe_start_def connect_def new_attempt_def)
  have b: "o_responseTimeout example_options = Some 200"
    by (simp add: example_options_def)
  have c: "probe example_options True 0 [] = Inr (run True example_config 0 [])"
    by (simp add: probe_def example_options_probe example_config_def)
  have d: "map responseTimeoutRef (socks (run True example_config 0 [])) = [Some 5000]"
    by (simp add: example_config_eq run_simps)
  from a b c d show ?thesis by simp
qed

text \<open>
  Claim C8. The claim has \<open>max\<close> and \<open>min\<close> range over the attempts with a defined time.
  The two reducers compare with \<open>curr.time\<close> without testing it: a dropped attempt makes
  the accumulator \<open>undefined\<close>, and the next attempt replaces it. Three plain attempts
  taking 5 ms, dropped, 3 ms give \<open>dropped = 1\<close>, \<open>avg = 4\<close>, and \<open>max = min = 3\<close>.
\<close>

theorem max_min_reset_by_dropped_attempt:
  "map time (results (run False (merge_defaults plain_options) 0 drop_trace)) = [Some 5, None, Some 3]
   \<and> map (\<lambda>r. (dropped r, avg r, max_time r, min_time r))
         (delivered (run False (merge_defaults plain_options) 0 drop_trace)) = [(1, Some 4, Some 3, Some 3)]"
  by (simp add: plain_config_eq drop_trace_def run_simps count_dropped_def sum_time_def
        reduce_max_def reduce_min_def js_div_def)

subsection \<open>One probe-mode attempt\<close>

lemma limit_buffer_bound:
  assumes "limit_buffer m buf ex d = (b, e)"
  shows "length b \<le> m"
  using assms by (auto simp: limit_buffer_def Let_def split: if_splits)

lemma limit_buffer_flag:
  assumes "limit_buffer m buf ex d = (b, e)" and "length buf \<le> m" and "ex \<longrightarrow> length buf = m"
  shows "(e \<longrightarrow> length b = m) \<and> (ex \<longrightarrow> e)"
  using assms by (auto simp: limit_buffer_def Let_def split: if_splits)

lemma attempt_inv_new: "attempt_inv cfg (new_attempt isP cfg now)"
  by (simp add: attempt_inv_def new_attempt_def)

lemma attempt_inv_request_exit: "attempt_inv cfg (request_exit cfg' a) = attempt_inv cfg a"
  by (simp add: attempt_inv_def sock_ops split: option.splits)

lemma attempt_inv_s_end: "attempt_inv cfg (s_end a) = attempt_inv cfg a"
  by (simp add: attempt_inv_def sock_ops)

lemma attempt_inv_timer: "attempt_inv cfg (a\<lparr>responseTimeoutRef := x\<rparr>) = attempt_inv cfg a"
  by (simp add: attempt_inv_def)

lemma attempt_inv_pushed: "attempt_inv cfg a \<Longrightarrow> attempt_inv cfg (a\<lparr>didPushResults := True\<rparr>)"
  by (auto simp add: attempt_inv_def split: option.splits)

lemma attempt_inv_connect:
  "attempt_inv cfg a \<Longrightarrow> \<not> connected a \<Longrightarrow>
   attempt_inv cfg ((s_write x (a\<lparr>connected := True, connectTime := Some t\<rparr>))\<lparr>responseBuffer := Some []\<rparr>)"
  by (auto simp add: attempt_inv_def sock_ops split: option.splits)

lemma attempt_inv_error:
  "attempt_inv cfg a \<Longrightarrow>
   attempt_inv cfg (s_destroy (a\<lparr>lastErr := (case lastErr a of None \<Rightarrow> Some e | Some e0 \<Rightarrow> Some e0)\<rparr>))"
  by (auto simp add: attempt_inv_def sock_ops split: option.splits)

lemma attempt_inv_destroy: "attempt_inv cfg a \<Longrightarrow> attempt_inv cfg (s_destroy a)"
  by (auto simp add: attempt_inv_def sock_ops split: option.splits)

lemma attempt_inv_timeout_err:
  "attempt_inv cfg a \<Longrightarrow>
   attempt_inv cfg (a\<lparr>lastErr := (case lastErr a of None \<Rightarrow> Some e | Some e0 \<Rightarrow> Some e0), didPushResults := True\<rparr>)"
  by (auto simp add: attempt_inv_def split: option.splits)

lemma attempt_inv_chunk:
  assumes inv: "attempt_inv cfg a" and buf: "responseBuffer a = Some buf"
    and live: "\<not> destroyed a" "\<not> didPushResults a"
    and lb: "limit_buffer (maxResponseBytes cfg) buf (didExceedResponseBytes a) d = (b, e)"
  shows "attempt_inv cfg (after_chunk cfg (a\<lparr>responseBuffer := Some b, didExceedResponseBytes := e\<rparr>))"
proof -
  from inv buf have len: "length buf \<le> maxResponseBytes cfg"
    and ex: "didExceedResponseBytes a \<longrightarrow> length buf = maxResponseBytes cfg"
    and exerr: "didExceedResponseBytes a \<longrightarrow> lastErr a = Some MaxResponseBytesExceeded"
    and con: "connectTime a \<noteq> None" "connected a"
    and le: "lastErr a \<noteq> None \<longrightarrow> didExceedResponseBytes a"
    using live by (auto simp: attempt_inv_def)
  from limit_buffer_bound[OF lb] have b: "length b \<le> maxResponseBytes cfg" .
  from limit_buffer_flag[OF lb len ex] have e: "e \<longrightarrow> length b = maxResponseBytes cfg"
    and mono: "didExceedResponseBytes a \<longrightarrow> e" by simp_all
  show ?thesis using b e mono con le exerr
    by (auto simp add: attempt_inv_def after_chunk_def Let_def sock_ops split: option.splits)
qed

lemma bounded_pushed_result:
  "attempt_inv cfg a \<Longrightarrow> bounded_result cfg (pushed_result cfg a i now res)"
  by (auto simp: bounded_result_def pushed_result_def attempt_inv_def split: option.splits)

lemma nth_update_all:
  "P a \<Longrightarrow> \<forall>k<length xs. P (xs ! k) \<Longrightarrow> j < length xs \<Longrightarrow> P (xs[k := a] ! j)"
  by (cases "k = j") auto

lemma probe_inv_update:
  "probe_inv cfg st \<Longrightarrow> attempt_inv cfg a \<Longrightarrow> probe_inv cfg (st\<lparr>socks := (socks st)[k := a]\<rparr>)"
  by (auto simp: probe_inv_def nth_update_all)

lemma probe_inv_check:
  "probe_inv cfg st \<Longrightarrow> probe_inv cfg (check True cfg now st)"
  by (auto simp: probe_inv_def check_def connect_def nth_append attempt_inv_new split: sum.splits)

lemma probe_inv_push:
  "probe_inv cfg st \<Longrightarrow> attempt_inv cfg a \<Longrightarrow> bounded_result cfg r \<Longrightarrow>
   probe_inv cfg (st\<lparr>socks := (socks st)[k := a], results := results st @ [r], attempt_i := n\<rparr>)"
  by (auto simp: probe_inv_def nth_update_all nth_append less_Suc_eq)

lemma probe_inv_nth: "probe_inv cfg st \<Longrightarrow> k < length (socks st) \<Longrightarrow> attempt_inv cfg (socks st ! k)"
  by (simp add: probe_inv_def)

lemma probe_inv_prc:
  assumes inv: "probe_inv cfg st" and k: "k < length (socks st)"
  shows "probe_inv cfg (probeResultCheck cfg k res now st)"
proof -
  let ?b = "(socks st ! k)\<lparr>responseTimeoutRef := None\<rparr>"
  let ?c = "s_end (request_exit cfg (?b\<lparr>didPushResults := True\<rparr>))"
  have a0: "attempt_inv cfg ?b"
    using probe_inv_nth[OF inv k] by (simp add: attempt_inv_timer)
  then have a1: "attempt_inv cfg ?c"
    by (simp add: attempt_inv_s_end attempt_inv_request_exit attempt_inv_pushed)
  show ?thesis
  proof (cases "didPushResults (socks st ! k)")
    case True
    then show ?thesis using inv a0 by (simp add: probeResultCheck_def Let_def probe_inv_update)
  next
    case False
    then show ?thesis using inv a1
      by (simp add: probeResultCheck_def Let_def probe_inv_check probe_inv_push bounded_pushed_result)
  qed
qed

lemma probe_inv_handler:
  assumes inv: "probe_inv cfg st" and k: "k < length (socks st)"
    and em: "emitted (socks st ! k) ev"
  shows "probe_inv cfg (probe_handler cfg k now ev st)"
proof (cases ev)
  case Connect
  then show ?thesis using inv em probe_inv_nth[OF inv k]
    by (simp add: onConnect_def Let_def probe_inv_update attempt_inv_connect)
next
  case (Data d)
  show ?thesis
  proof (cases "didPushResults (socks st ! k) \<or> responseBuffer (socks st ! k) = None")
    case True
    then show ?thesis using inv Data by (auto simp: onData_def Let_def)
  next
    case False
    then obtain buf where buf: "responseBuffer (socks st ! k) = Some buf"
      and np: "\<not> didPushResults (socks st ! k)" by auto
    obtain b e where lb: "limit_buffer (maxResponseBytes cfg) buf (didExceedResponseBytes (socks st ! k)) d = (b, e)"
      by (cases "limit_buffer (maxResponseBytes cfg) buf (didExceedResponseBytes (socks st ! k)) d")
    from em Data have nd: "\<not> destroyed (socks st ! k)" by simp
    from attempt_inv_chunk[OF probe_inv_nth[OF inv k] buf nd np lb]
    show ?thesis using inv Data buf np lb
      by (simp add: onData_def Let_def probe_inv_update)
  qed
next
  case (Error e)
  then show ?thesis using inv probe_inv_nth[OF inv k]
    by (simp add: onError_def Let_def probe_inv_update attempt_inv_error)
next
  case Finish
  then show ?thesis using inv probe_inv_nth[OF inv k]
    by (simp add: onFinish_def probe_inv_update attempt_inv_destroy)
next
  case Close
  then show ?thesis using inv k by (simp add: onClose_def probe_inv_prc)
next
  case Timeout
  then show ?thesis using inv k by (simp add: onTimeout_def probe_inv_prc)
next
  case ResponseTimer
  let ?a = "(socks st ! k)\<lparr>responseTimeoutRef := None\<rparr>"
  have a: "attempt_inv cfg ?a" using probe_inv_nth[OF inv k] by (simp add: attempt_inv_timer)
  show ?thesis
  proof (cases "didPushResults (socks st ! k)")
    case True
    then show ?thesis using inv a ResponseTimer
      by (simp add: onResponseTimeout_def Let_def probe_inv_update)
  next
    case False
    define A where "A = s_end (request_exit cfg ((socks st ! k)
        \<lparr>lastErr := (case lastErr (socks st ! k) of None \<Rightarrow> Some ResponseTimeout | Some e \<Rightarrow> Some e),
         responseTimeoutRef := None,
         didPushResults := True\<rparr>))"
    have eq: "onResponseTimeout cfg k now st =
        check True cfg now (st\<lparr>socks := (socks st)[k := A],
           results := results st @ [pushed_result cfg A (attempt_i st) now (Some ResponseTimeout)],
           attempt_i := Suc (attempt_i st)\<rparr>)"
      using False k by (simp add: onResponseTimeout_def probeResultCheck_def Let_def A_def)
    have A: "attempt_inv cfg A" using probe_inv_nth[OF inv k]
      by (auto simp: A_def attempt_inv_def sock_ops split: option.splits)
    show ?thesis unfolding ResponseTimer probe_handler.simps eq
      by (intro probe_inv_check probe_inv_push inv A bounded_pushed_result)
  qed
qed

lemma probe_inv_emit: "probe_inv cfg st \<Longrightarrow> probe_inv cfg (emit True cfg st e)"
  by (cases e) (simp add: probe_inv_handler)

lemma probe_inv_foldl: "probe_inv cfg st \<Longrightarrow> probe_inv cfg (foldl (emit True cfg) st evs)"
  by (induction evs arbitrary: st) (simp_all add: probe_inv_emit)

lemma probe_inv_run: "probe_inv cfg (run True cfg t0 evs)"
  unfolding run_def
  by (rule probe_inv_foldl) (simp add: probe_inv_def probe_start_def connect_def attempt_inv_new)

subsection \<open>Claims about the response buffer and the recorded fields\<close>

text \<open>
  Claim C5. In probe mode, after any events, every recorded result has \<open>bytes\<close> and the
  length of \<open>data\<close> at most \<open>maxResponseBytes\<close>, and so has the response buffer of every
  attempt.
\<close>

theorem response_buffer_bounded:
  "(\<forall>r \<in> set (results (run True cfg t0 evs)).
      (\<forall>n. bytes r = Some n \<longrightarrow> n \<le> maxResponseBytes cfg) \<and>
      (\<forall>d. data r = Some d \<longrightarrow> length d \<le> maxResponseBytes cfg))
   \<and> (\<forall>a \<in> set (socks (run True cfg t0 evs)).
        \<forall>b. responseBuffer a = Some b \<longrightarrow> length b \<le> maxResponseBytes cfg)"
proof -
  have inv: "probe_inv cfg (run True cfg t0 evs)" by (rule probe_inv_run)
  show ?thesis
  proof (intro conjI ballI allI impI)
    fix r n assume "r \<in> set (results (run True cfg t0 evs))" "bytes r = Some n"
    then show "n \<le> maxResponseBytes cfg" using inv
      by (auto simp: probe_inv_def bounded_result_def in_set_conv_nth)
  next
    fix r d assume "r \<in> set (results (run True cfg t0 evs))" "data r = Some d"
    then show "length d \<le> maxResponseBytes cfg" using inv
      by (auto simp: probe_inv_def bounded_result_def in_set_conv_nth)
  next
    fix a b assume "a \<in> set (socks (run True cfg t0 evs))" "responseBuffer a = Some b"
    then show "length b \<le> maxResponseBytes cfg" using inv
      by (auto simp: probe_inv_def attempt_inv_def in_set_conv_nth)
  qed
qed

lemma overflow_state:
  "results (run True example_config 0 overflow_trace) =
     [\<lparr>seq = 0, conTime = Some 2, time = Some 6, match_r = Some False,
       err = Some MaxResponseBytesExceeded, bytes = Some 6, data = Some ''012345''\<rparr>]"
  by (simp add: example_config_eq overflow_trace_def run_simps)

theorem response_buffer_bounded_witness:
  "bytes (results (run True example_config 0 overflow_trace) ! 0) = Some 6
   \<and> data (results (run True example_config 0 overflow_trace) ! 0) = Some ''012345''
   \<and> (6::nat) \<le> maxResponseBytes example_config"
proof -
  let ?r = "results (run True example_config 0 overflow_trace) ! 0"
  have m: "?r \<in> set (results (run True example_config 0 overflow_trace))"
    and b: "bytes ?r = Some 6" and d: "data ?r = Some ''012345''"
    by (simp_all add: overflow_state)
  from response_buffer_bounded[of example_config 0 overflow_trace] m b
  have "(6::nat) \<le> maxResponseBytes example_config" by blast
  with b d show ?thesis by simp
qed

lemma prc_results:
  "k < length (socks st) \<Longrightarrow> \<not> didPushResults (socks st ! k) \<Longrightarrow>
   results (probeResultCheck cfg k res now st) =
     results st @ [pushed_result cfg
        (s_end (request_exit cfg ((socks st ! k)\<lparr>responseTimeoutRef := None, didPushResults := True\<rparr>)))
        (attempt_i st) now res]"
  by (simp add: probeResultCheck_def Let_def check_fields)

lemma pushed_result_never_connected:
  assumes "connectTime a = None" "responseBuffer a = None" "\<not> didMatch a"
  shows "pushed_result cfg (s_end (request_exit cfg (a\<lparr>responseTimeoutRef := x, didPushResults := True\<rparr>))) i now res =
     \<lparr>seq = i, conTime = None, time = None,
      match_r = (if truthy_matcher (match cfg) then Some False else None),
      err = (case res of None \<Rightarrow> lastErr a | Some e \<Rightarrow> Some e), bytes = None, data = None\<rparr>"
  using assms by (simp add: pushed_result_def sock_ops split: option.splits)

lemma trigger_result_never_connected:
  assumes k: "k < length (socks st)" and np: "\<not> didPushResults (socks st ! k)"
    and inv: "attempt_inv cfg (socks st ! k)" and nc: "connectTime (socks st ! k) = None"
    and ev: "ev = Close \<or> ev = Timeout \<or> ev = ResponseTimer"
  shows "results (probe_handler cfg k now ev st) = results st @
     [\<lparr>seq = attempt_i st, conTime = None, time = None,
       match_r = (if truthy_matcher (match cfg) then Some False else None),
       err = (if ev = ResponseTimer then Some ResponseTimeout else lastErr (socks st ! k)),
       bytes = None, data = None\<rparr>]"
proof -
  from inv nc have rb: "responseBuffer (socks st ! k) = None" and nm: "\<not> didMatch (socks st ! k)"
    by (auto simp: attempt_inv_def)
  from ev show ?thesis
  proof (elim disjE)
    assume "ev = Close"
    then show ?thesis using k np nc rb nm
      by (simp add: onClose_def prc_results pushed_result_never_connected)
  next
    assume "ev = Timeout"
    then show ?thesis using k np nc rb nm
      by (simp add: onTimeout_def prc_results pushed_result_never_connected)
  next
    assume "ev = ResponseTimer"
    then show ?thesis using k np nc rb nm
      by (simp add: onResponseTimeout_def Let_def prc_results pushed_result_never_connected)
  qed
qed

subsection \<open>Progress of the sequencer\<close>

lemma handler_step:
  assumes k: "k < length (socks st)"
  shows "\<exists>extra. socks (probe_handler cfg k now ev st) = (socks st)[k := attempt_step cfg now ev (socks st ! k)] @ extra
      \<and> (extra = [] \<or> extra = [new_attempt True cfg now])"
proof (cases ev)
  case Connect
  then show ?thesis by (simp add: onConnect_def Let_def)
next
  case (Data d)
  then show ?thesis using k
    by (auto simp: onData_def Let_def split: option.splits prod.splits)
next
  case (Error e)
  then show ?thesis by (simp add: onError_def Let_def)
next
  case Finish
  then show ?thesis by (simp add: onFinish_def)
next
  case Close
  then show ?thesis
    by (auto simp: onClose_def probeResultCheck_def Let_def check_def connect_def split: sum.splits)
next
  case Timeout
  then show ?thesis
    by (auto simp: onTimeout_def probeResultCheck_def Let_def check_def connect_def split: sum.splits)
next
  case ResponseTimer
  then show ?thesis using k
    by (auto simp: onResponseTimeout_def probeResultCheck_def Let_def check_def connect_def split: sum.splits)
qed

lemma all_socks_handler:
  assumes inv: "all_socks P st" and k: "k < length (socks st)"
    and new: "P (new_attempt True cfg now)"
    and step: "P (attempt_step cfg now ev (socks st ! k))"
  shows "all_socks P (probe_handler cfg k now ev st)"
proof -
  from handler_step[OF k, of cfg now ev] obtain extra where
    sh: "socks (probe_handler cfg k now ev st) = (socks st)[k := attempt_step cfg now ev (socks st ! k)] @ extra"
    and ex: "extra = [] \<or> extra = [new_attempt True cfg now]" by blast
  have "\<forall>j<length ((socks st)[k := attempt_step cfg now ev (socks st ! k)]).
          P ((socks st)[k := attempt_step cfg now ev (socks st ! k)] ! j)"
    using inv step by (auto simp: all_socks_def nth_update_all)
  with ex new show ?thesis unfolding all_socks_def sh
    by (auto simp: nth_append less_Suc_eq)
qed

lemma timer_pending_new: "timer_pending (new_attempt True cfg now)"
  by (simp add: timer_pending_def new_attempt_def)

lemma timer_pending_step: "timer_pending a \<Longrightarrow> timer_pending (attempt_step cfg now ev a)"
  by (cases ev)
     (auto simp: timer_pending_def sock_ops after_chunk_def Let_def split: option.splits prod.splits)

lemma timer_pending_emit:
  "all_socks timer_pending st \<Longrightarrow> all_socks timer_pending (emit True cfg st e)"
proof (cases e)
  case (fields k now ev)
  assume inv: "all_socks timer_pending st"
  show ?thesis
  proof (cases "k < length (socks st) \<and> emitted (socks st ! k) ev")
    case True
    then have k: "k < length (socks st)" by simp
    from inv k have "timer_pending (socks st ! k)" by (simp add: all_socks_def)
    then have "timer_pending (attempt_step cfg now ev (socks st ! k))" by (rule timer_pending_step)
    from all_socks_handler[OF inv k timer_pending_new this] True fields show ?thesis by simp
  next
    case False
    with inv fields show ?thesis by auto
  qed
qed

lemma timer_pending_foldl:
  "all_socks timer_pending st \<Longrightarrow> all_socks timer_pending (foldl (emit True cfg) st evs)"
  by (induction evs arbitrary: st) (simp_all add: timer_pending_emit)

lemma timer_pending_start: "all_socks timer_pending (probe_start True cfg t0)"
  by (simp add: all_socks_def probe_start_def connect_def timer_pending_new)

lemma timer_pending_run: "all_socks timer_pending (run True cfg t0 evs)"
  unfolding run_def by (rule timer_pending_foldl) (rule timer_pending_start)

lemma prc_counts:
  assumes k: "k < length (socks st)" and nf: "\<not> didPushResults (socks st ! k)"
  shows "attempt_i (probeResultCheck cfg k res now st) = Suc (attempt_i st)"
  using prc_fresh[OF nf k, of cfg res now] by blast

lemma trigger_counts:
  assumes k: "k < length (socks st)" and nf: "\<not> didPushResults (socks st ! k)"
    and ev: "ev = Close \<or> ev = Timeout \<or> ev = ResponseTimer"
  shows "attempt_i (probe_handler cfg k now ev st) = Suc (attempt_i st)"
  using ev
proof (elim disjE)
  assume "ev = Close" then show ?thesis using prc_counts[OF k nf] by (simp add: onClose_def)
next
  assume "ev = Timeout" then show ?thesis using prc_counts[OF k nf] by (simp add: onTimeout_def)
next
  assume e: "ev = ResponseTimer"
  let ?b = "(socks st ! k)\<lparr>responseTimeoutRef := None\<rparr>"
  let ?st1 = "st\<lparr>socks := (socks st)[k := ?b\<lparr>lastErr := (case lastErr ?b of None \<Rightarrow> Some ResponseTimeout | Some e \<Rightarrow> Some e)\<rparr>]\<rparr>"
  have "k < length (socks ?st1)" "\<not> didPushResults (socks ?st1 ! k)" using k nf by simp_all
  from prc_counts[OF this, of cfg "Some ResponseTimeout" now] show ?thesis using e nf
    by (simp add: onResponseTimeout_def Let_def)
qed

lemma plain_push_counts:
  "results (plain_push cfg k now t e st) = results st @ [plain_result (attempt_i st) t e]"
  "attempt_i (plain_push cfg k now t e st) = Suc (attempt_i st)"
  by (simp_all add: plain_push_def check_fields)

lemma plain_finishing:
  assumes "finishing False ev"
  shows "(\<exists>r. results (plain_handler cfg k now ev st) = results st @ [r] \<and> seq r = attempt_i st)
       \<and> attempt_i (plain_handler cfg k now ev st) = Suc (attempt_i st)"
  using assms
  by (cases ev)
     (simp_all add: plainConnect_def plainError_def plainTimeout_def plain_push_counts plain_result_def)

lemma probe_finishing: "finishing True ev \<Longrightarrow> ev = Close \<or> ev = Timeout \<or> ev = ResponseTimer"
  by (cases ev) simp_all

lemma current_socket:
  assumes inv: "seq_inv isP cfg st" and cur: "attempt_i st = 0 \<or> attempt_i st < attempts cfg"
  shows "length (socks st) = Suc (attempt_i st)" "\<not> finalized isP (socks st ! attempt_i st)"
    "delivered st = []"
proof -
  from inv cur show len: "length (socks st) = Suc (attempt_i st)"
    unfolding seq_inv_def by auto
  from inv len show "\<not> finalized isP (socks st ! attempt_i st)"
    unfolding seq_inv_def by auto
  from inv len show "delivered st = []"
    unfolding seq_inv_def by auto
qed

lemma finishing_pushes:
  assumes inv: "seq_inv isP cfg st" and cur: "attempt_i st = 0 \<or> attempt_i st < attempts cfg"
    and fin: "finishing isP ev" and em: "emitted (socks st ! attempt_i st) ev"
  shows "(\<exists>r. results (emit isP cfg st (attempt_i st, now, ev)) = results st @ [r] \<and> seq r = attempt_i st)
       \<and> attempt_i (emit isP cfg st (attempt_i st, now, ev)) = Suc (attempt_i st)"
proof -
  note cs = current_socket[OF inv cur]
  have k: "attempt_i st < length (socks st)" using cs(1) by simp
  show ?thesis
  proof (cases isP)
    case True
    with cs(2) have nf: "\<not> didPushResults (socks st ! attempt_i st)" by (simp add: finalized_def)
    from fin True have ev: "ev = Close \<or> ev = Timeout \<or> ev = ResponseTimer"
      by (simp add: probe_finishing)
    from trigger_pushes[OF k nf ev, of cfg now] trigger_counts[OF k nf ev, of cfg now] True k em
    show ?thesis by auto
  next
    case False
    with fin plain_finishing[of ev cfg "attempt_i st" now st] k em show ?thesis by simp
  qed
qed

lemma timeout_event_finishing: "finishing isP (timeout_event isP)"
  by (simp add: timeout_event_def)

lemma timeout_event_emitted:
  assumes inv: "seq_inv isP cfg st" and cur: "attempt_i st = 0 \<or> attempt_i st < attempts cfg"
    and tp: "isP \<longrightarrow> all_socks timer_pending st"
  shows "emitted (socks st ! attempt_i st) (timeout_event isP)"
proof -
  note cs = current_socket[OF inv cur]
  show ?thesis
  proof (cases isP)
    case True
    with cs(2) have nf: "\<not> didPushResults (socks st ! attempt_i st)" by (simp add: finalized_def)
    from tp True cs(1) have "timer_pending (socks st ! attempt_i st)" by (simp add: all_socks_def)
    with nf True show ?thesis by (simp add: timer_pending_def timeout_event_def)
  next
    case False
    with cs(2) show ?thesis by (simp add: finalized_def timeout_event_def)
  qed
qed

lemma finish_rest_Cons:
  "i < n \<Longrightarrow> finish_rest isP i n now = (i, now, timeout_event isP) # finish_rest isP (Suc i) n now"
  by (simp add: finish_rest_def upt_conv_Cons)

lemma finish_rest_counts:
  assumes "seq_inv isP cfg st" and "isP \<longrightarrow> all_socks timer_pending st"
    and "attempt_i st \<le> attempts cfg"
  shows "attempt_i (foldl (emit isP cfg) st (finish_rest isP (attempt_i st) (attempts cfg) now)) = attempts cfg"
  using assms
proof (induction "attempts cfg - attempt_i st" arbitrary: st)
  case 0
  then show ?case by (simp add: finish_rest_def)
next
  case (Suc d)
  then have lt: "attempt_i st < attempts cfg" by simp
  let ?e = "(attempt_i st, now, timeout_event isP)"
  let ?st1 = "emit isP cfg st ?e"
  have em: "emitted (socks st ! attempt_i st) (timeout_event isP)"
    using timeout_event_emitted[OF Suc.prems(1) _ Suc.prems(2)] lt by simp
  from finishing_pushes[OF Suc.prems(1) _ timeout_event_finishing em, of now] lt
  have i1: "attempt_i ?st1 = Suc (attempt_i st)" by simp
  have inv1: "seq_inv isP cfg ?st1" by (rule seq_inv_emit[OF Suc.prems(1)])
  have tp1: "isP \<longrightarrow> all_socks timer_pending ?st1"
    using Suc.prems(2) timer_pending_emit[of st cfg ?e] by auto
  have d: "d = attempts cfg - attempt_i ?st1" using Suc.hyps(2) i1 by simp
  have le: "attempt_i ?st1 \<le> attempts cfg" using lt i1 by simp
  from Suc.hyps(1)[OF d inv1 tp1 le] i1 finish_rest_Cons[OF lt, of isP now]
  show ?case by simp
qed

lemma done_delivered:
  assumes inv: "seq_inv isP cfg st" and n: "1 \<le> attempts cfg" and d: "attempt_i st = attempts cfg"
  shows "\<exists>r. delivered st = [r] \<and> rep_results r = results st"
  using assms unfolding seq_inv_def by auto

lemma plain_run_start:
  "attempt_i (run False (merge_defaults plain_options) 0 []) = 0"
  "attempts (merge_defaults plain_options) = 3"
  by (simp_all add: plain_config_eq run_simps)

lemma zero_start:
  "attempts (merge_defaults zero_attempts_options) = 0"
  "attempt_i (run True (merge_defaults zero_attempts_options) 0 []) = 0"
  "emitted (socks (run True (merge_defaults zero_attempts_options) 0 []) ! 0) ResponseTimer"
  by (simp_all add: zero_attempts_config_eq example_config_eq run_simps)

text \<open>
  Claim C2. With \<open>attempts = n \<ge> 1\<close>, in either mode and after any events, the results
  recorded so far are as many as attempts have finished, at most \<open>n\<close>, and the one at
  position \<open>j\<close> has \<open>seq = j\<close>. While fewer than \<open>n\<close> attempts have finished, the
  callback has not been called, the timeout of the current attempt can still fire, and
  every event that finishes the current attempt (connect, error or idle timeout in plain
  mode; close, idle timeout or response timer in probe mode) appends exactly one result
  with the attempt's number and moves the counter on, whether the attempt connected,
  failed or was dropped. Once \<open>n\<close> have finished the callback holds exactly these
  results. From any such state, letting each remaining attempt time out ends with one
  call of the callback, with \<open>n\<close> results and \<open>seq = k\<close> at position \<open>k\<close>.
\<close>

theorem results_length_and_order:
  assumes n: "1 \<le> attempts cfg" and s: "s = run isP cfg t0 evs"
  shows "length (results s) = attempt_i s \<and> attempt_i s \<le> attempts cfg
       \<and> (\<forall>j<length (results s). seq (results s ! j) = j)
       \<and> (attempt_i s < attempts cfg \<longrightarrow>
            delivered s = [] \<and> attempt_i s < length (socks s)
          \<and> emitted (socks s ! attempt_i s) (timeout_event isP)
          \<and> (finishing isP ev \<and> emitted (socks s ! attempt_i s) ev \<longrightarrow>
               (\<exists>r. results (emit isP cfg s (attempt_i s, now, ev)) = results s @ [r]
                     \<and> seq r = attempt_i s)
             \<and> attempt_i (emit isP cfg s (attempt_i s, now, ev)) = Suc (attempt_i s)))
       \<and> (attempt_i s = attempts cfg \<longrightarrow> (\<exists>r. delivered s = [r] \<and> rep_results r = results s))
       \<and> (\<exists>r. delivered (run isP cfg t0 (evs @ finish_rest isP (attempt_i s) (attempts cfg) now)) = [r]
              \<and> length (rep_results r) = attempts cfg
              \<and> (\<forall>k<attempts cfg. seq (rep_results r ! k) = k))"
proof -
  have inv: "seq_inv isP cfg s" unfolding s by (rule seq_inv_run)
  have tp: "isP \<longrightarrow> all_socks timer_pending s" unfolding s using timer_pending_run by auto
  from inv have lr: "length (results s) = attempt_i s"
    and sq: "\<forall>j<length (results s). seq (results s ! j) = j"
    unfolding seq_inv_def by auto
  from inv n have le: "attempt_i s \<le> attempts cfg" unfolding seq_inv_def by auto
  have A: "delivered s = [] \<and> attempt_i s < length (socks s)
          \<and> emitted (socks s ! attempt_i s) (timeout_event isP)
          \<and> (finishing isP ev \<and> emitted (socks s ! attempt_i s) ev \<longrightarrow>
               (\<exists>r. results (emit isP cfg s (attempt_i s, now, ev)) = results s @ [r]
                     \<and> seq r = attempt_i s)
             \<and> attempt_i (emit isP cfg s (attempt_i s, now, ev)) = Suc (attempt_i s))"
    if lt: "attempt_i s < attempts cfg"
  proof -
    from lt have cur: "attempt_i s = 0 \<or> attempt_i s < attempts cfg" by simp
    note cs = current_socket[OF inv cur]
    from cs(1) have k: "attempt_i s < length (socks s)" by simp
    from finishing_pushes[OF inv cur, of ev now] timeout_event_emitted[OF inv cur tp] cs(3) k
    show ?thesis by blast
  qed
  have B: "\<exists>r. delivered s = [r] \<and> rep_results r = results s" if "attempt_i s = attempts cfg"
    using done_delivered[OF inv n that] .
  let ?s' = "run isP cfg t0 (evs @ finish_rest isP (attempt_i s) (attempts cfg) now)"
  have s': "?s' = foldl (emit isP cfg) s (finish_rest isP (attempt_i s) (attempts cfg) now)"
    by (simp add: run_def s)
  have inv': "seq_inv isP cfg ?s'" by (rule seq_inv_run)
  have i': "attempt_i ?s' = attempts cfg"
    unfolding s' by (rule finish_rest_counts[OF inv tp le])
  from done_delivered[OF inv' n i'] obtain r where r: "delivered ?s' = [r]" "rep_results r = results ?s'"
    by blast
  from inv' i' have "length (results ?s') = attempts cfg" "\<forall>j<attempts cfg. seq (results ?s' ! j) = j"
    unfolding seq_inv_def by auto
  with r have C: "\<exists>r. delivered ?s' = [r] \<and> length (rep_results r) = attempts cfg
              \<and> (\<forall>k<attempts cfg. seq (rep_results r ! k) = k)"
    by auto
  from lr le sq A B C show ?thesis by blast
qed

theorem results_length_and_order_witness:
  "1 \<le> attempts example_config
   \<and> (\<exists>r. delivered (run True example_config 0 two_attempts_trace) = [r]
          \<and> length (rep_results r) = 2
          \<and> seq (rep_results r ! 0) = 0 \<and> seq (rep_results r ! 1) = 1)
   \<and> 1 \<le> attempts (merge_defaults plain_options)
   \<and> (\<exists>r. delivered (run False (merge_defaults plain_options) 0 (finish_rest False 0 3 9)) = [r]
          \<and> length (rep_results r) = 3)"
proof -
  let ?s = "run True example_config 0 two_attempts_trace"
  have n: "1 \<le> attempts example_config" and a: "attempts example_config = 2"
    by (simp_all add: example_config_eq)
  have i: "attempt_i ?s = 2" by (rule two_attempts_state)
  note T = results_length_and_order[OF n refl, of True 0 two_attempts_trace]
  from T have l: "length (results ?s) = attempt_i ?s"
    and q: "\<forall>j<length (results ?s). seq (results ?s ! j) = j"
    and d: "attempt_i ?s = attempts example_config \<longrightarrow> (\<exists>r. delivered ?s = [r] \<and> rep_results r = results ?s)"
    by blast+
  from d i a obtain r where r: "delivered ?s = [r]" "rep_results r = results ?s" by auto
  from l i q have "length (results ?s) = 2" "seq (results ?s ! 0) = 0" "seq (results ?s ! 1) = 1"
    by simp_all
  with r have A: "\<exists>r. delivered ?s = [r] \<and> length (rep_results r) = 2
          \<and> seq (rep_results r ! 0) = 0 \<and> seq (rep_results r ! 1) = 1" by simp
  have n': "1 \<le> attempts (merge_defaults plain_options)" by (simp add: plain_run_start)
  from results_length_and_order[OF n' refl, of False 0 "[]" _ 9]
  have "\<exists>r. delivered (run False (merge_defaults plain_options) 0
          ([] @ finish_rest False (attempt_i (run False (merge_defaults plain_options) 0 []))
                 (attempts (merge_defaults plain_options)) 9)) = [r]
          \<and> length (rep_results r) = attempts (merge_defaults plain_options)" by blast
  then have B: "\<exists>r. delivered (run False (merge_defaults plain_options) 0 (finish_rest False 0 3 9)) = [r]
          \<and> length (rep_results r) = 3"
    by (simp only: plain_run_start append_Nil)
  from n A n' B show ?thesis by blast
qed

text \<open>
  Claim C10, amended. The aggregator does assume a non-empty \<open>results\<close>: on the empty
  array \<open>results[0].time\<close> throws a TypeError. \<open>probe\<close> never runs it on one. The first
  \<open>connect\<close> does not go through \<open>check\<close>, so with \<open>attempts\<close> 0 one attempt is made all
  the same: until it finishes nothing is delivered and its timeout can still fire, the
  event that finishes it runs the aggregator on one result, which throws nothing, and the
  callback receives a report with one result.
\<close>

theorem zero_attempts_one_result:
  assumes z: "attempts cfg = 0" and s: "s = run isP cfg t0 evs"
  shows "aggregate isP cfg [] = Inl TypeError
       \<and> uncaught s = [] \<and> length (socks s) = 1 \<and> attempt_i s \<le> 1
       \<and> length (results s) = attempt_i s
       \<and> (attempt_i s = 0 \<longrightarrow>
            delivered s = []
          \<and> emitted (socks s ! 0) (timeout_event isP)
          \<and> (finishing isP ev \<and> emitted (socks s ! 0) ev \<longrightarrow>
               (\<exists>r. delivered (emit isP cfg s (0, now, ev)) = [r] \<and> length (rep_results r) = 1)
             \<and> uncaught (emit isP cfg s (0, now, ev)) = []))
       \<and> (attempt_i s = 1 \<longrightarrow> (\<exists>r. delivered s = [r] \<and> length (rep_results r) = 1))"
proof -
  have inv: "seq_inv isP cfg s" unfolding s by (rule seq_inv_run)
  have tp: "isP \<longrightarrow> all_socks timer_pending s" unfolding s using timer_pending_run by auto
  have E: "aggregate isP cfg [] = Inl TypeError" by (simp add: aggregate_def)
  from inv z have unc: "uncaught s = []" and i1: "attempt_i s \<le> 1"
    and lr: "length (results s) = attempt_i s"
    and ls: "length (socks s) = (if attempt_i s = 0 then 1 else attempt_i s)"
    unfolding seq_inv_def by auto
  from i1 ls have len: "length (socks s) = 1" by (cases "attempt_i s = 0") auto
  have one: "\<exists>r. delivered st = [r] \<and> length (rep_results r) = 1"
    if "seq_inv isP cfg st" "attempt_i st = 1" for st
    using that z unfolding seq_inv_def by auto
  have A: "delivered s = []
          \<and> emitted (socks s ! 0) (timeout_event isP)
          \<and> (finishing isP ev \<and> emitted (socks s ! 0) ev \<longrightarrow>
               (\<exists>r. delivered (emit isP cfg s (0, now, ev)) = [r] \<and> length (rep_results r) = 1)
             \<and> uncaught (emit isP cfg s (0, now, ev)) = [])"
    if i0: "attempt_i s = 0"
  proof -
    from i0 have cur: "attempt_i s = 0 \<or> attempt_i s < attempts cfg" by simp
    note cs = current_socket[OF inv cur]
    have em: "emitted (socks s ! 0) (timeout_event isP)"
      using timeout_event_emitted[OF inv cur tp] i0 by simp
    have "(\<exists>r. delivered (emit isP cfg s (0, now, ev)) = [r] \<and> length (rep_results r) = 1)
             \<and> uncaught (emit isP cfg s (0, now, ev)) = []"
      if f: "finishing isP ev" and e: "emitted (socks s ! 0) ev"
    proof -
      from finishing_pushes[OF inv cur f, of now] e i0
      have "attempt_i (emit isP cfg s (0, now, ev)) = 1" by simp
      moreover have inv1: "seq_inv isP cfg (emit isP cfg s (0, now, ev))" by (rule seq_inv_emit[OF inv])
      ultimately have "\<exists>r. delivered (emit isP cfg s (0, now, ev)) = [r] \<and> length (rep_results r) = 1"
        using one by blast
      moreover from inv1 have "uncaught (emit isP cfg s (0, now, ev)) = []"
        unfolding seq_inv_def by blast
      ultimately show ?thesis by blast
    qed
    with cs(3) em show ?thesis by blast
  qed
  have B: "\<exists>r. delivered s = [r] \<and> length (rep_results r) = 1" if "attempt_i s = 1"
    using one[OF inv that] .
  from E unc len i1 lr A B show ?thesis by blast
qed

theorem zero_attempts_one_result_witness:
  "attempts (merge_defaults zero_attempts_options) = 0
   \<and> attempt_i (run True (merge_defaults zero_attempts_options) 0 []) = 0
   \<and> emitted (socks (run True (merge_defaults zero_attempts_options) 0 []) ! 0) ResponseTimer
   \<and> (\<exists>r. delivered (emit True (merge_defaults zero_attempts_options)
              (run True (merge_defaults zero_attempts_options) 0 []) (0, 5000, ResponseTimer)) = [r]
          \<and> length (rep_results r) = 1)
   \<and> uncaught (emit True (merge_defaults zero_attempts_options)
              (run True (merge_defaults zero_attempts_options) 0 []) (0, 5000, ResponseTimer)) = []"
proof -
  have f: "finishing True ResponseTimer" by simp
  from zero_attempts_one_result[OF zero_start(1) refl, of True 0 "[]" ResponseTimer 5000]
    zero_start f
  show ?thesis by blast
qed

theorem zero_attempts_counterexample:
  "aggregate True (merge_defaults zero_attempts_options) [] = Inl TypeError
   \<and> map (\<lambda>r. length (rep_results r))
        (delivered (run True (merge_defaults zero_attempts_options) 0 one_attempt_trace)) = [1]"
proof -
  have "aggregate True (merge_defaults zero_attempts_options) [] = Inl TypeError"
    by (simp add: aggregate_def)
  moreover have "map (\<lambda>r. length (rep_results r))
        (delivered (run True (merge_defaults zero_attempts_options) 0 one_attempt_trace)) = [1]"
    by (simp add: zero_attempts_config_eq example_config_eq one_attempt_trace_def run_simps)
  ultimately show ?thesis by blast
qed

subsection \<open>Claims under the order in which Node delivers events\<close>

text \<open>Node's order only drops events, so what every event keeps, Node's order keeps.\<close>

lemma node_emit_cases: "node_emit isP cfg st e = emit isP cfg st e \<or> node_emit isP cfg st e = st"
  by (cases e) auto

lemma node_foldl_inv:
  assumes step: "\<And>st e. P st \<Longrightarrow> P (emit isP cfg st e)"
  shows "P st \<Longrightarrow> P (foldl (node_emit isP cfg) st evs)"
proof (induction evs arbitrary: st)
  case Nil
  then show ?case by simp
next
  case (Cons e evs)
  from step[OF Cons.prems, of e] have "P (emit isP cfg st e)" .
  with node_emit_cases[of isP cfg st e] Cons.prems have "P (node_emit isP cfg st e)"
    by (elim disjE) (simp_all only:)
  then show ?case using Cons.IH by simp
qed

lemma seq_inv_node_run: "seq_inv isP cfg (node_run isP cfg t0 evs)"
  unfolding node_run_def
  by (rule node_foldl_inv[where P = "seq_inv isP cfg"]) (rule seq_inv_emit, assumption, rule seq_inv_start)

lemma probe_inv_start: "probe_inv cfg (probe_start True cfg t0)"
  by (simp add: probe_inv_def probe_start_def connect_def attempt_inv_new)

lemma probe_inv_node_run: "probe_inv cfg (node_run True cfg t0 evs)"
  unfolding node_run_def
  by (rule node_foldl_inv[where P = "probe_inv cfg"]) (rule probe_inv_emit, assumption, rule probe_inv_start)

lemma timer_pending_node_run: "all_socks timer_pending (node_run True cfg t0 evs)"
  unfolding node_run_def
  by (rule node_foldl_inv[where P = "all_socks timer_pending"])
     (rule timer_pending_emit, assumption, rule timer_pending_start)

lemma closing_inv_new: "closing_inv (new_attempt True cfg now)"
  by (simp add: closing_inv_def new_attempt_def)

lemma closing_inv_step:
  assumes "closing_inv a" "attempt_inv cfg a" "emitted a ev" "node_order a ev"
  shows "closing_inv (attempt_step cfg now ev a)"
  using assms
  by (cases ev)
     (auto simp: closing_inv_def attempt_inv_def sock_ops after_chunk_def Let_def
           split: option.splits prod.splits)

lemma closing_inv_node_emit:
  assumes inv: "all_socks closing_inv st" and pinv: "probe_inv cfg st"
  shows "all_socks closing_inv (node_emit True cfg st e)"
proof (cases e)
  case (fields k now ev)
  show ?thesis
  proof (cases "k < length (socks st) \<and> emitted (socks st ! k) ev \<and> node_order (socks st ! k) ev")
    case True
    then have k: "k < length (socks st)" by simp
    from inv k have "closing_inv (socks st ! k)" by (simp add: all_socks_def)
    with True probe_inv_nth[OF pinv k]
    have "closing_inv (attempt_step cfg now ev (socks st ! k))" by (simp add: closing_inv_step)
    from all_socks_handler[OF inv k closing_inv_new this] True fields show ?thesis by simp
  next
    case False
    with inv fields show ?thesis by auto
  qed
qed

lemma probe_inv_node_emit: "probe_inv cfg st \<Longrightarrow> probe_inv cfg (node_emit True cfg st e)"
  using node_emit_cases[of True cfg st e] probe_inv_emit[of cfg st e]
  by (elim disjE) (simp_all only:)

lemma closing_inv_foldl:
  "all_socks closing_inv st \<Longrightarrow> probe_inv cfg st \<Longrightarrow>
   all_socks closing_inv (foldl (node_emit True cfg) st evs)"
  by (induction evs arbitrary: st) (simp_all add: closing_inv_node_emit probe_inv_node_emit)

lemma closing_inv_node_run: "all_socks closing_inv (node_run True cfg t0 evs)"
  unfolding node_run_def
proof (rule closing_inv_foldl)
  show "all_socks closing_inv (probe_start True cfg t0)"
    by (simp add: all_socks_def probe_start_def connect_def closing_inv_new)
  show "probe_inv cfg (probe_start True cfg t0)" by (rule probe_inv_start)
qed





lemma refused_node_state:
  "results (node_run True example_config 0 refused_trace) =
     [\<lparr>seq = 0, conTime = None, time = None, match_r = Some False,
       err = Some (SocketError ''ECONNREFUSED''), bytes = None, data = None\<rparr>]"
  by (simp add: example_config_eq refused_trace_def node_run_def run_simps)

lemma node_start_state:
  "node_run True example_config 0 [] =
     \<lparr>attempt_i = 0, results = [], socks = [new_attempt True example_config 0], delivered = [], uncaught = []\<rparr>"
  by (simp add: node_run_def probe_start_def connect_def)

text \<open>
  Claim C4, amended. In the order Node delivers events, take a probe-mode attempt that has
  not connected and has not pushed. The trigger that finishes it appends one result with
  \<open>conTime\<close>, \<open>time\<close>, \<open>bytes\<close> and \<open>data\<close> absent, an error present, and \<open>match\<close>
  present with the value \<open>false\<close> whenever \<open>match\<close> was configured (absent otherwise).
  The error is \<open>Response timeout\<close> when the response timer finishes the attempt and the
  latched socket error when the close does; a socket error followed by the close records
  that error.
\<close>

theorem never_connected_result:
  assumes s: "s = node_run True cfg t0 evs" and k: "k < length (socks s)"
    and np: "\<not> didPushResults (socks s ! k)" and nc: "connectTime (socks s ! k) = None"
  shows "((ev = Close \<or> ev = Timeout \<or> ev = ResponseTimer)
            \<and> emitted (socks s ! k) ev \<and> node_order (socks s ! k) ev \<longrightarrow>
            (\<exists>r. results (node_emit True cfg s (k, now, ev)) = results s @ [r]
               \<and> seq r = k \<and> conTime r = None \<and> time r = None \<and> err r \<noteq> None
               \<and> match_r r = (if truthy_matcher (match cfg) then Some False else None)
               \<and> bytes r = None \<and> data r = None
               \<and> (ev = ResponseTimer \<longrightarrow> err r = Some ResponseTimeout)
               \<and> (ev = Close \<longrightarrow> err r = lastErr (socks s ! k))))
       \<and> (\<not> destroyed (socks s ! k) \<longrightarrow>
            results (node_emit True cfg (node_emit True cfg s (k, now, Error e)) (k, now', Close)) = results s @
              [\<lparr>seq = k, conTime = None, time = None,
                match_r = (if truthy_matcher (match cfg) then Some False else None),
                err = Some e, bytes = None, data = None\<rparr>])"
proof -
  have pinv: "probe_inv cfg s" unfolding s by (rule probe_inv_node_run)
  have sinv: "seq_inv True cfg s" unfolding s by (rule seq_inv_node_run)
  have tinv: "timer_pending (socks s ! k)"
    using timer_pending_node_run[of cfg t0 evs] k unfolding s all_socks_def by blast
  have cinv: "closing_inv (socks s ! k)"
    using closing_inv_node_run[of cfg t0 evs] k unfolding s all_socks_def by blast
  have ainv: "attempt_inv cfg (socks s ! k)" by (rule probe_inv_nth[OF pinv k])
  have ki: "attempt_i s = k" using sinv k np
    by (auto simp: seq_inv_def finalized_def split: if_splits)
  from ainv nc have rb: "responseBuffer (socks s ! k) = None"
    by (cases "responseBuffer (socks s ! k)") (auto simp: attempt_inv_def)
  with ainv have ncon: "\<not> connected (socks s ! k)" and nm: "\<not> didMatch (socks s ! k)"
    and ne: "\<not> didExceedResponseBytes (socks s ! k)"
    by (auto simp: attempt_inv_def)
  from cinv np ncon have nend: "\<not> ended (socks s ! k)" by (auto simp: closing_inv_def)
  with cinv ncon have derr: "destroyed (socks s ! k) \<longrightarrow> lastErr (socks s ! k) \<noteq> None"
    by (auto simp: closing_inv_def)
  have A: "\<exists>r. results (node_emit True cfg s (k, now, ev)) = results s @ [r]
               \<and> seq r = k \<and> conTime r = None \<and> time r = None \<and> err r \<noteq> None
               \<and> match_r r = (if truthy_matcher (match cfg) then Some False else None)
               \<and> bytes r = None \<and> data r = None
               \<and> (ev = ResponseTimer \<longrightarrow> err r = Some ResponseTimeout)
               \<and> (ev = Close \<longrightarrow> err r = lastErr (socks s ! k))"
    if ev: "ev = Close \<or> ev = Timeout \<or> ev = ResponseTimer"
      and em: "emitted (socks s ! k) ev" and no: "node_order (socks s ! k) ev"
  proof -
    let ?r = "\<lparr>seq = k, conTime = None, time = None,
                match_r = (if truthy_matcher (match cfg) then Some False else None),
                err = (if ev = ResponseTimer then Some ResponseTimeout else lastErr (socks s ! k)),
                bytes = None, data = None\<rparr>"
    have res: "results (node_emit True cfg s (k, now, ev)) = results s @ [?r]"
      using trigger_result_never_connected[OF k np ainv nc ev, of now] k ki em no by simp
    have nt: "ev \<noteq> Timeout" using no tinv np by (auto simp: timer_pending_def)
    have "err ?r \<noteq> None"
    proof (cases "ev = ResponseTimer")
      case True
      then show ?thesis by simp
    next
      case False
      with ev nt have "ev = Close" by blast
      with no derr show ?thesis by simp
    qed
    with res show ?thesis by (intro exI[of _ ?r]) auto
  qed
  have B: "results (node_emit True cfg (node_emit True cfg s (k, now, Error e)) (k, now', Close)) = results s @
              [\<lparr>seq = k, conTime = None, time = None,
                match_r = (if truthy_matcher (match cfg) then Some False else None),
                err = Some e, bytes = None, data = None\<rparr>]" if nd: "\<not> destroyed (socks s ! k)"
  proof -
    from ainv nd np ne have le: "lastErr (socks s ! k) = None"
      by (auto simp: attempt_inv_def)
    let ?s1 = "node_emit True cfg s (k, now, Error e)"
    have s1: "?s1 = s\<lparr>socks := (socks s)[k := s_destroy ((socks s ! k)\<lparr>lastErr := Some e\<rparr>)]\<rparr>"
      using k nd le by (simp add: onError_def Let_def)
    show ?thesis unfolding s1 using k np nc rb nm ki
      by (simp add: onClose_def prc_results pushed_result_def sock_ops split: option.splits)
  qed
  from A B show ?thesis by blast
qed

theorem never_connected_result_witness:
  "0 < length (socks (node_run True example_config 0 []))
   \<and> \<not> didPushResults (socks (node_run True example_config 0 []) ! 0)
   \<and> connectTime (socks (node_run True example_config 0 []) ! 0) = None
   \<and> \<not> destroyed (socks (node_run True example_config 0 []) ! 0)
   \<and> emitted (socks (node_run True example_config 0 []) ! 0) ResponseTimer
   \<and> node_order (socks (node_run True example_config 0 []) ! 0) ResponseTimer
   \<and> (\<exists>r. results (node_emit True example_config (node_run True example_config 0 []) (0, 5000, ResponseTimer)) = [r]
          \<and> conTime r = None \<and> time r = None \<and> err r = Some ResponseTimeout \<and> match_r r = Some False)
   \<and> results (node_emit True example_config
         (node_emit True example_config (node_run True example_config 0 []) (0, 1, Error (SocketError ''ECONNREFUSED'')))
         (0, 2, Close)) =
        [\<lparr>seq = 0, conTime = None, time = None, match_r = Some False,
          err = Some (SocketError ''ECONNREFUSED''), bytes = None, data = None\<rparr>]"
proof -
  let ?s = "node_run True example_config 0 []"
  have k: "0 < length (socks ?s)" and np: "\<not> didPushResults (socks ?s ! 0)"
    and nc: "connectTime (socks ?s ! 0) = None" and nd: "\<not> destroyed (socks ?s ! 0)"
    and r: "results ?s = []"
    and em: "emitted (socks ?s ! 0) ResponseTimer" and no: "node_order (socks ?s ! 0) ResponseTimer"
    by (simp_all add: node_start_state new_attempt_def)
  have m: "truthy_matcher (match example_config)" by (simp add: example_config_eq)
  note T = never_connected_result[OF refl k np nc, of ResponseTimer 5000 "SocketError ''ECONNREFUSED''" 2]
  from T em no
  have "\<exists>r. results (node_emit True example_config ?s (0, 5000, ResponseTimer)) = results ?s @ [r]
          \<and> conTime r = None \<and> time r = None \<and> err r = Some ResponseTimeout
          \<and> match_r r = (if truthy_matcher (match example_config) then Some False else None)"
    by blast
  then have A: "\<exists>r. results (node_emit True example_config ?s (0, 5000, ResponseTimer)) = [r]
          \<and> conTime r = None \<and> time r = None \<and> err r = Some ResponseTimeout \<and> match_r r = Some False"
    by (simp only: r append_Nil m if_True)
  note U = never_connected_result[OF refl k np nc, of Close 1 "SocketError ''ECONNREFUSED''" 2]
  from U nd
  have "results (node_emit True example_config
         (node_emit True example_config ?s (0, 1, Error (SocketError ''ECONNREFUSED'')))
         (0, 2, Close)) = results ?s @
        [\<lparr>seq = 0, conTime = None, time = None,
          match_r = (if truthy_matcher (match example_config) then Some False else None),
          err = Some (SocketError ''ECONNREFUSED''), bytes = None, data = None\<rparr>]"
    by blast
  then have B: "results (node_emit True example_config
         (node_emit True example_config ?s (0, 1, Error (SocketError ''ECONNREFUSED'')))
         (0, 2, Close)) =
        [\<lparr>seq = 0, conTime = None, time = None, match_r = Some False,
          err = Some (SocketError ''ECONNREFUSED''), bytes = None, data = None\<rparr>]"
    by (simp only: r append_Nil m if_True)
  from k np nc nd em no A B show ?thesis by blast
qed

theorem never_connected_match_counterexample:
  "truthy_matcher (match example_config)
   \<and> map conTime (results (node_run True example_config 0 refused_trace)) = [None]
   \<and> map match_r (results (node_run True example_config 0 refused_trace)) = [Some False]"
  by (simp add: refused_node_state) (simp add: example_config_eq)

subsection \<open>Plain mode results\<close>

lemma plain_inv_check: "plain_inv st \<Longrightarrow> plain_inv (check False cfg now st)"
  by (auto simp: plain_inv_def check_def connect_def aggregate_def split: sum.splits list.splits)

lemma plain_inv_push: "plain_inv st \<Longrightarrow> plain_inv (plain_push cfg k now t e st)"
  unfolding plain_push_def
  by (rule plain_inv_check) (auto simp: plain_inv_def plain_result_def)

lemma plain_inv_handler: "plain_inv st \<Longrightarrow> plain_inv (plain_handler cfg k now ev st)"
  by (cases ev) (simp_all add: plainConnect_def plainError_def plainTimeout_def plain_inv_push)

lemma plain_inv_emit: "plain_inv st \<Longrightarrow> plain_inv (emit False cfg st e)"
  by (cases e) (simp add: plain_inv_handler)

lemma plain_inv_foldl: "plain_inv st \<Longrightarrow> plain_inv (foldl (emit False cfg) st evs)"
  by (induction evs arbitrary: st) (simp_all add: plain_inv_emit)

lemma plain_inv_run: "plain_inv (run False cfg t0 evs)"
  unfolding run_def
  by (rule plain_inv_foldl) (simp add: plain_inv_def probe_start_def connect_def)

subsection \<open>The mode\<close>

lemma truthy_payload_iff:
  "truthy_payload p \<longleftrightarrow> (\<exists>s. p = Some (Str s) \<and> s \<noteq> []) \<or> (\<exists>b. p = Some (Buf b))"
  by (cases p rule: truthy_payload.cases) simp_all

lemma truthy_matcher_iff:
  "truthy_matcher m \<longleftrightarrow> (\<exists>x. m = Some x \<and> x \<noteq> MatchStr [])"
  by (cases m rule: truthy_matcher.cases) simp_all

lemma truthy_bool_iff: "truthy_bool b \<longleftrightarrow> b = Some True"
  by (cases b) simp_all

lemma truthy_num_iff: "truthy_num n \<longleftrightarrow> (\<exists>k. n = Some k \<and> k \<noteq> 0)"
  by (cases n) simp_all

text \<open>
  Claim C9, amended. Probe mode is on exactly when one of the caller's \<open>request\<close>,
  \<open>exitRequest\<close>, \<open>capture\<close>, \<open>match\<close>, \<open>maxResponseBytes\<close> is truthy: a non-empty string
  or any Buffer for the first two, \<open>true\<close>, a non-empty string, Buffer, RegExp or function,
  a non-zero number. Otherwise the invocation runs in plain mode: no result has \<open>match\<close>,
  \<open>bytes\<close> or \<open>data\<close>, and the report has no probe statistics.
\<close>

theorem isProbe_truthy_options:
  "(isProbe opts \<longleftrightarrow>
      (\<exists>s. o_request opts = Some (Str s) \<and> s \<noteq> []) \<or> (\<exists>b. o_request opts = Some (Buf b)) \<or>
      (\<exists>s. o_exitRequest opts = Some (Str s) \<and> s \<noteq> []) \<or> (\<exists>b. o_exitRequest opts = Some (Buf b)) \<or>
      o_capture opts = Some True \<or>
      (\<exists>m. o_match opts = Some m \<and> m \<noteq> MatchStr []) \<or>
      (\<exists>n. o_maxResponseBytes opts = Some n \<and> n \<noteq> 0))
   \<and> (\<forall>s. probe opts True t0 evs = Inr s \<and> \<not> isProbe opts \<longrightarrow>
          (\<forall>r \<in> set (results s). match_r r = None \<and> bytes r = None \<and> data r = None) \<and>
          (\<forall>rep \<in> set (delivered s). probe_part rep = None))"
proof -
  have A: "isProbe opts \<longleftrightarrow>
      (\<exists>s. o_request opts = Some (Str s) \<and> s \<noteq> []) \<or> (\<exists>b. o_request opts = Some (Buf b)) \<or>
      (\<exists>s. o_exitRequest opts = Some (Str s) \<and> s \<noteq> []) \<or> (\<exists>b. o_exitRequest opts = Some (Buf b)) \<or>
      o_capture opts = Some True \<or>
      (\<exists>m. o_match opts = Some m \<and> m \<noteq> MatchStr []) \<or>
      (\<exists>n. o_maxResponseBytes opts = Some n \<and> n \<noteq> 0)"
    unfolding isProbe_def truthy_payload_iff truthy_matcher_iff truthy_bool_iff truthy_num_iff
    by blast
  have B: "\<forall>s. probe opts True t0 evs = Inr s \<and> \<not> isProbe opts \<longrightarrow>
          (\<forall>r \<in> set (results s). match_r r = None \<and> bytes r = None \<and> data r = None) \<and>
          (\<forall>rep \<in> set (delivered s). probe_part rep = None)"
    using plain_inv_run[of "merge_defaults opts" t0 evs]
    by (auto simp: probe_def plain_inv_def)
  from A B show ?thesis by blast
qed

lemma falsy_config_eq:
  "merge_defaults falsy_options = \<lparr> address = ''localhost'', port = 7, attempts = 3, timeout = 5000,
      responseTimeout = None, encoding = ''utf8'', request = [],
      exitRequest = None, match = None, maxResponseBytes = 0,
      capture = False, noDelay = True \<rparr>"
  by (simp add: falsy_options_def plain_options_def merge_defaults_def Let_def Buffer_from_def)

lemma falsy_state:
  "map seq (results (run False (merge_defaults falsy_options) 0 drop_trace)) = [0, 1, 2]"
  by (simp add: falsy_config_eq drop_trace_def run_simps)

theorem isProbe_truthy_options_witness:
  "\<not> isProbe falsy_options
   \<and> (\<exists>s. probe falsy_options True 0 drop_trace = Inr s \<and> length (results s) = 3
          \<and> match_r (results s ! 0) = None \<and> bytes (results s ! 0) = None \<and> data (results s ! 0) = None)"
proof -
  let ?s = "run False (merge_defaults falsy_options) 0 drop_trace"
  have np: "\<not> isProbe falsy_options"
    by (simp add: falsy_options_def plain_options_def isProbe_def)
  then have p: "probe falsy_options True 0 drop_trace = Inr ?s"
    by (simp add: probe_def)
  have "length (map seq (results ?s)) = 3" by (simp only: falsy_state) simp
  then have l: "length (results ?s) = 3" by simp
  then have m: "results ?s ! 0 \<in> set (results ?s)" by simp
  from isProbe_truthy_options[of falsy_options 0 drop_trace] p np m
  have "match_r (results ?s ! 0) = None \<and> bytes (results ?s ! 0) = None \<and> data (results ?s ! 0) = None"
    by blast
  with np p l show ?thesis by blast
qed

theorem falsy_options_counterexample:
  "o_request falsy_options = Some (Str []) \<and> o_capture falsy_options = Some False
   \<and> o_maxResponseBytes falsy_options = Some 0 \<and> \<not> isProbe falsy_options"
  by (simp add: falsy_options_def plain_options_def isProbe_def)

subsection \<open>Claims about the cap and the inbound data\<close>

lemma limit_buffer_take:
  "limit_buffer m (take m xs) (m < length xs) d = (take m (xs @ d), m < length (xs @ d))"
  by (auto simp: limit_buffer_def Let_def min_def)

lemma inbound_from_append:
  "inbound_from cfg k st (es @ es') =
     inbound_from cfg k st es @ inbound_from cfg k (foldl (emit True cfg) st es) es'"
  by (induction es arbitrary: st) simp_all

lemma inbound_snoc:
  "inbound cfg t0 (evs @ [e]) k = inbound cfg t0 evs k @ consumed_chunk k (run True cfg t0 evs) e"
  by (simp add: inbound_def run_def inbound_from_append)

lemma run_snoc: "run isP cfg t0 (evs @ [e]) = emit isP cfg (run isP cfg t0 evs) e"
  by (simp add: run_def)

text \<open>What a handler does to the list of sockets.\<close>
lemma prc_socks:
  assumes k: "k < length (socks st)"
  shows "\<exists>a' extra. socks (probeResultCheck cfg k res now st) = (socks st)[k := a'] @ extra
     \<and> (extra = [] \<or> extra = [new_attempt True cfg now])
     \<and> connected a' = connected (socks st ! k)
     \<and> responseBuffer a' = responseBuffer (socks st ! k)
     \<and> didExceedResponseBytes a' = didExceedResponseBytes (socks st ! k)"
proof (cases "didPushResults (socks st ! k)")
  case True
  then show ?thesis
    by (intro exI[of _ "(socks st ! k)\<lparr>responseTimeoutRef := None\<rparr>"] exI[of _ "[]"])
       (simp add: prc_guard)
next
  case False
  let ?a = "s_end (request_exit cfg ((socks st ! k)\<lparr>responseTimeoutRef := None, didPushResults := True\<rparr>))"
  have "socks (probeResultCheck cfg k res now st) = (socks st)[k := ?a] @ []
      \<or> socks (probeResultCheck cfg k res now st) = (socks st)[k := ?a] @ [new_attempt True cfg now]"
    using False by (simp add: probeResultCheck_def Let_def check_def connect_def split: sum.splits)
  moreover have "connected ?a = connected (socks st ! k)" "responseBuffer ?a = responseBuffer (socks st ! k)"
    "didExceedResponseBytes ?a = didExceedResponseBytes (socks st ! k)"
    by (simp_all add: sock_ops split: option.splits)
  ultimately show ?thesis by blast
qed

lemma rt_socks:
  assumes k: "k < length (socks st)"
  shows "\<exists>a' extra. socks (onResponseTimeout cfg k now st) = (socks st)[k := a'] @ extra
     \<and> (extra = [] \<or> extra = [new_attempt True cfg now])
     \<and> connected a' = connected (socks st ! k)
     \<and> responseBuffer a' = responseBuffer (socks st ! k)
     \<and> didExceedResponseBytes a' = didExceedResponseBytes (socks st ! k)"
proof (cases "didPushResults (socks st ! k)")
  case True
  then show ?thesis
    by (intro exI[of _ "(socks st ! k)\<lparr>responseTimeoutRef := None\<rparr>"] exI[of _ "[]"])
       (simp add: onResponseTimeout_def Let_def)
next
  case False
  let ?st1 = "st\<lparr>socks := (socks st)[k := (socks st ! k)\<lparr>responseTimeoutRef := None,
      lastErr := (case lastErr (socks st ! k) of None \<Rightarrow> Some ResponseTimeout | Some e \<Rightarrow> Some e)\<rparr>]\<rparr>"
  have eq: "onResponseTimeout cfg k now st = probeResultCheck cfg k (Some ResponseTimeout) now ?st1"
    using False by (simp add: onResponseTimeout_def Let_def)
  have k1: "k < length (socks ?st1)" using k by simp
  from prc_socks[OF k1, of cfg "Some ResponseTimeout" now] k
  show ?thesis unfolding eq by simp
qed

lemma handler_socks:
  assumes k: "k < length (socks st)"
    and ev: "ev = Error e \<or> ev = Finish \<or> ev = Close \<or> ev = Timeout \<or> ev = ResponseTimer"
  shows "\<exists>a' extra. socks (probe_handler cfg k now ev st) = (socks st)[k := a'] @ extra
     \<and> (extra = [] \<or> extra = [new_attempt True cfg now])
     \<and> connected a' = connected (socks st ! k)
     \<and> responseBuffer a' = responseBuffer (socks st ! k)
     \<and> didExceedResponseBytes a' = didExceedResponseBytes (socks st ! k)"
  using ev
proof (elim disjE)
  assume "ev = Error e"
  then show ?thesis
    by (intro exI[of _ "s_destroy ((socks st ! k)\<lparr>lastErr := (case lastErr (socks st ! k) of None \<Rightarrow> Some e | Some e0 \<Rightarrow> Some e0)\<rparr>)"] exI[of _ "[]"])
       (simp add: onError_def Let_def sock_ops)
next
  assume "ev = Finish"
  then show ?thesis
    by (intro exI[of _ "s_destroy (socks st ! k)"] exI[of _ "[]"]) (simp add: onFinish_def sock_ops)
next
  assume "ev = Close"
  then show ?thesis using prc_socks[OF k, of cfg None now] by (simp add: onClose_def)
next
  assume "ev = Timeout"
  then show ?thesis using prc_socks[OF k, of cfg None now] by (simp add: onTimeout_def)
next
  assume "ev = ResponseTimer"
  then show ?thesis using rt_socks[OF k, of cfg now] by simp
qed

lemma connect_socks:
  "socks (onConnect cfg k now st) =
     (socks st)[k := (s_write (request cfg) ((socks st ! k)\<lparr>connected := True, connectTime := Some (now - start (socks st ! k))\<rparr>))\<lparr>responseBuffer := Some []\<rparr>]"
  by (simp add: onConnect_def Let_def)

lemma data_socks:
  assumes "responseBuffer (socks st ! k) = Some buf" "\<not> didPushResults (socks st ! k)"
    "limit_buffer (maxResponseBytes cfg) buf (didExceedResponseBytes (socks st ! k)) d = (b, e)"
  shows "\<exists>a'. socks (onData cfg k d st) = (socks st)[k := a']
     \<and> connected a' = connected (socks st ! k)
     \<and> responseBuffer a' = Some b \<and> didExceedResponseBytes a' = e"
  using assms
  by (intro exI[of _ "after_chunk cfg ((socks st ! k)\<lparr>responseBuffer := Some b, didExceedResponseBytes := e\<rparr>)"])
     (simp add: onData_def Let_def after_chunk_def sock_ops split: option.splits)

text \<open>Every handler leaves the other sockets alone and appends at most a fresh one.\<close>
lemma any_handler_socks:
  assumes k: "k < length (socks st)"
  shows "\<exists>a' extra. socks (probe_handler cfg k now ev st) = (socks st)[k := a'] @ extra
     \<and> (extra = [] \<or> extra = [new_attempt True cfg now])"
proof (cases ev)
  case Connect
  then show ?thesis using connect_socks[of cfg k now st] by (metis append_Nil2 probe_handler.simps(1))
next
  case (Data d)
  show ?thesis
  proof (cases "didPushResults (socks st ! k) \<or> responseBuffer (socks st ! k) = None")
    case True
    then have "socks (onData cfg k d st) = (socks st)[k := socks st ! k] @ []"
      by (auto simp: onData_def Let_def)
    then show ?thesis using Data by (metis probe_handler.simps(2))
  next
    case False
    then obtain buf where buf: "responseBuffer (socks st ! k) = Some buf"
      and np: "\<not> didPushResults (socks st ! k)" by auto
    obtain b e where lb: "limit_buffer (maxResponseBytes cfg) buf (didExceedResponseBytes (socks st ! k)) d = (b, e)"
      by (cases "limit_buffer (maxResponseBytes cfg) buf (didExceedResponseBytes (socks st ! k)) d")
    from data_socks[OF buf np lb] show ?thesis using Data by (metis append_Nil2 probe_handler.simps(2))
  qed
next
  case (Error e)
  then show ?thesis using handler_socks[OF k, of ev e cfg now] by blast
next
  case Finish
  then show ?thesis using handler_socks[OF k, of ev undefined cfg now] by blast
next
  case Close
  then show ?thesis using handler_socks[OF k, of ev undefined cfg now] by blast
next
  case Timeout
  then show ?thesis using handler_socks[OF k, of ev undefined cfg now] by blast
next
  case ResponseTimer
  then show ?thesis using handler_socks[OF k, of ev undefined cfg now] by blast
qed

lemma fed_same:
  assumes "k < length (socks s)" "k < length (socks s')"
    and "connected (socks s' ! k) = connected (socks s ! k)"
    and "responseBuffer (socks s' ! k) = responseBuffer (socks s ! k)"
    and "didExceedResponseBytes (socks s' ! k) = didExceedResponseBytes (socks s ! k)"
  shows "fed cfg k s' ds = fed cfg k s ds"
  using assms by (simp add: fed_def)

lemma fed_other:
  assumes fed: "fed cfg k s ds" and k': "k' < length (socks s)" and ne: "k' \<noteq> k"
  shows "fed cfg k (probe_handler cfg k' now ev s) ds"
proof -
  from any_handler_socks[OF k', of cfg now ev] obtain a' extra where
    sh: "socks (probe_handler cfg k' now ev s) = (socks s)[k' := a'] @ extra"
    and ex: "extra = [] \<or> extra = [new_attempt True cfg now]" by blast
  show ?thesis
  proof (cases "k < length (socks s)")
    case True
    then have "socks (probe_handler cfg k' now ev s) ! k = socks s ! k"
      using sh ne by (simp add: nth_append)
    moreover have "k < length (socks (probe_handler cfg k' now ev s))" using sh True by simp
    ultimately show ?thesis using fed True by (simp add: fed_def)
  next
    case False
    with fed have ds: "ds = []" by (simp add: fed_def)
    from ex False have "k < length (socks (probe_handler cfg k' now ev s)) \<longrightarrow>
        \<not> connected (socks (probe_handler cfg k' now ev s) ! k)"
      unfolding sh by (auto simp: nth_append new_attempt_def)
    then show ?thesis using ds by (auto simp: fed_def)
  qed
qed

lemma fed_self:
  assumes fed: "fed cfg k s ds" and k: "k < length (socks s)"
    and ainv: "attempt_inv cfg (socks s ! k)" and em: "emitted (socks s ! k) ev"
  shows "fed cfg k (probe_handler cfg k now ev s) (ds @ consumed_chunk k s (k, now, ev))"
proof (cases ev)
  case Connect
  with em have nc: "\<not> connected (socks s ! k)" by simp
  with fed k have ds: "ds = []" by (simp add: fed_def)
  from ainv nc have "\<not> didExceedResponseBytes (socks s ! k)"
    by (cases "responseBuffer (socks s ! k)") (auto simp: attempt_inv_def)
  then show ?thesis using Connect k ds
    by (simp add: fed_def connect_socks sock_ops)
next
  case (Data d)
  with em have con: "connected (socks s ! k)" by simp
  with fed k have buf: "responseBuffer (socks s ! k) = Some (take (maxResponseBytes cfg) (concat ds))"
    and fl: "didExceedResponseBytes (socks s ! k) = (maxResponseBytes cfg < length (concat ds))"
    by (simp_all add: fed_def)
  show ?thesis
  proof (cases "didPushResults (socks s ! k)")
    case True
    then show ?thesis using Data fed by (simp add: onData_def Let_def)
  next
    case False
    have lb: "limit_buffer (maxResponseBytes cfg) (take (maxResponseBytes cfg) (concat ds))
        (didExceedResponseBytes (socks s ! k)) d =
        (take (maxResponseBytes cfg) (concat ds @ d), maxResponseBytes cfg < length (concat ds @ d))"
      unfolding fl by (rule limit_buffer_take)
    from data_socks[OF buf False lb] obtain a' where
      "socks (onData cfg k d s) = (socks s)[k := a']" "connected a' = connected (socks s ! k)"
      "responseBuffer a' = Some (take (maxResponseBytes cfg) (concat ds @ d))"
      "didExceedResponseBytes a' = (maxResponseBytes cfg < length (concat ds @ d))" by blast
    then show ?thesis using Data False k con em
      by (simp add: fed_def)
  qed
next
  case (Error e)
  from handler_socks[OF k, of ev e cfg now] Error obtain a' extra where
    "socks (probe_handler cfg k now ev s) = (socks s)[k := a'] @ extra"
    "connected a' = connected (socks s ! k)" "responseBuffer a' = responseBuffer (socks s ! k)"
    "didExceedResponseBytes a' = didExceedResponseBytes (socks s ! k)" by blast
  then show ?thesis using fed k Error by (simp add: fed_def nth_append)
next
  case Finish
  from handler_socks[OF k, of ev undefined cfg now] Finish obtain a' extra where
    "socks (probe_handler cfg k now ev s) = (socks s)[k := a'] @ extra"
    "connected a' = connected (socks s ! k)" "responseBuffer a' = responseBuffer (socks s ! k)"
    "didExceedResponseBytes a' = didExceedResponseBytes (socks s ! k)" by blast
  then show ?thesis using fed k Finish by (simp add: fed_def nth_append)
next
  case Close
  from handler_socks[OF k, of ev undefined cfg now] Close obtain a' extra where
    "socks (probe_handler cfg k now ev s) = (socks s)[k := a'] @ extra"
    "connected a' = connected (socks s ! k)" "responseBuffer a' = responseBuffer (socks s ! k)"
    "didExceedResponseBytes a' = didExceedResponseBytes (socks s ! k)" by blast
  then show ?thesis using fed k Close by (simp add: fed_def nth_append)
next
  case Timeout
  from handler_socks[OF k, of ev undefined cfg now] Timeout obtain a' extra where
    "socks (probe_handler cfg k now ev s) = (socks s)[k := a'] @ extra"
    "connected a' = connected (socks s ! k)" "responseBuffer a' = responseBuffer (socks s ! k)"
    "didExceedResponseBytes a' = didExceedResponseBytes (socks s ! k)" by blast
  then show ?thesis using fed k Timeout by (simp add: fed_def nth_append)
next
  case ResponseTimer
  from handler_socks[OF k, of ev undefined cfg now] ResponseTimer obtain a' extra where
    "socks (probe_handler cfg k now ev s) = (socks s)[k := a'] @ extra"
    "connected a' = connected (socks s ! k)" "responseBuffer a' = responseBuffer (socks s ! k)"
    "didExceedResponseBytes a' = didExceedResponseBytes (socks s ! k)" by blast
  then show ?thesis using fed k ResponseTimer by (simp add: fed_def nth_append)
qed

lemma consumed_chunk_other:
  "k' \<noteq> k \<or> \<not> k' < length (socks s) \<or> \<not> emitted (socks s ! k') ev \<Longrightarrow> consumed_chunk k s (k', now, ev) = []"
  by (cases ev) auto

lemma fed_step:
  assumes fed: "fed cfg k s ds" and pinv: "probe_inv cfg s"
  shows "fed cfg k (emit True cfg s e) (ds @ consumed_chunk k s e)"
proof -
  obtain k' now ev where e: "e = (k', now, ev)" by (cases e)
  show ?thesis
  proof (cases "k' < length (socks s) \<and> emitted (socks s ! k') ev")
    case False
    then show ?thesis using fed e consumed_chunk_other[of k' k s ev now] by auto
  next
    case True
    show ?thesis
    proof (cases "k' = k")
      case False
      from True have k': "k' < length (socks s)" by simp
      from fed_other[OF fed k' False, of now ev] consumed_chunk_other[of k' k s ev now] False True e
      show ?thesis by simp
    next
      case same: True
      from True same have k: "k < length (socks s)" and em: "emitted (socks s ! k) ev" by simp_all
      from fed_self[OF fed k probe_inv_nth[OF pinv k] em, of now] show ?thesis
        using e same True by simp
    qed
  qed
qed

lemma fed_run: "fed cfg k (run True cfg t0 evs) (inbound cfg t0 evs k)"
proof (induction evs rule: rev_induct)
  case Nil
  show ?case
    by (cases k) (simp_all add: fed_def inbound_def run_def probe_start_def connect_def new_attempt_def)
next
  case (snoc e evs)
  from fed_step[OF snoc probe_inv_run, of e] show ?case
    by (simp only: inbound_snoc run_snoc)
qed

lemma pushed_result_exceeded:
  assumes "responseBuffer a = Some b" "length b = maxResponseBytes cfg"
  shows "bytes (pushed_result cfg (s_end (request_exit cfg (a\<lparr>responseTimeoutRef := x, didPushResults := True\<rparr>))) i now res)
           = Some (maxResponseBytes cfg)"
    and "data (pushed_result cfg (s_end (request_exit cfg (a\<lparr>responseTimeoutRef := x, didPushResults := True\<rparr>))) i now res)
           = (if capture cfg then Some b else None)"
    and "err (pushed_result cfg (s_end (request_exit cfg (a\<lparr>responseTimeoutRef := x, didPushResults := True\<rparr>))) i now res)
           = (case res of None \<Rightarrow> lastErr a | Some e \<Rightarrow> Some e)"
  using assms by (simp_all add: pushed_result_def sock_ops split: option.splits)

lemma trigger_result_exceeded:
  assumes k: "k < length (socks st)" and np: "\<not> didPushResults (socks st ! k)"
    and buf: "responseBuffer (socks st ! k) = Some b" and len: "length b = maxResponseBytes cfg"
    and le: "lastErr (socks st ! k) = Some MaxResponseBytesExceeded"
    and ev: "ev = Close \<or> ev = Timeout \<or> ev = ResponseTimer"
  shows "\<exists>r. results (probe_handler cfg k now ev st) = results st @ [r]
       \<and> bytes r = Some (maxResponseBytes cfg)
       \<and> data r = (if capture cfg then Some b else None)
       \<and> err r = Some (if ev = ResponseTimer then ResponseTimeout else MaxResponseBytesExceeded)"
  using ev
proof (elim disjE)
  assume "ev = Close"
  then show ?thesis using k np le
    by (simp add: onClose_def prc_results pushed_result_exceeded[OF buf len])
next
  assume "ev = Timeout"
  then show ?thesis using k np le
    by (simp add: onTimeout_def prc_results pushed_result_exceeded[OF buf len])
next
  assume e: "ev = ResponseTimer"
  let ?a = "(socks st ! k)\<lparr>lastErr := Some MaxResponseBytesExceeded\<rparr>"
  have b': "responseBuffer ?a = Some b" using buf by simp
  show ?thesis using e k np le
    by (simp add: onResponseTimeout_def Let_def prc_results pushed_result_exceeded[OF b' len])
qed

text \<open>
  Claim C6, amended. Let \<open>ds\<close> be the chunks attempt \<open>k\<close> has taken in. Once the attempt
  is connected its buffer is the first \<open>maxResponseBytes\<close> bytes of their concatenation
  and the exceeded flag is set exactly when the total is larger than the cap: an
  overflowing chunk is cut, a chunk that fills the buffer exactly is appended whole and
  sets no flag. If the total is larger than the cap, the trigger that finishes the
  attempt records \<open>bytes = maxResponseBytes\<close>, the cut buffer as \<open>data\<close> when capturing,
  and the error \<open>Max Response Bytes Exceeded\<close>, unless that trigger is the response
  timer, whose own \<open>Response timeout\<close> is spread over it.
\<close>

theorem overflow_result:
  assumes s: "s = run True cfg t0 evs" and k: "k < length (socks s)"
    and ds: "ds = inbound cfg t0 evs k"
  shows "(connected (socks s ! k) \<longrightarrow>
            responseBuffer (socks s ! k) = Some (take (maxResponseBytes cfg) (concat ds))
          \<and> didExceedResponseBytes (socks s ! k) = (maxResponseBytes cfg < length (concat ds)))
       \<and> (maxResponseBytes cfg < length (concat ds) \<and> \<not> didPushResults (socks s ! k)
            \<and> (ev = Close \<or> ev = Timeout \<or> ev = ResponseTimer) \<and> emitted (socks s ! k) ev \<longrightarrow>
            (\<exists>r. results (emit True cfg s (k, now, ev)) = results s @ [r]
               \<and> bytes r = Some (maxResponseBytes cfg)
               \<and> data r = (if capture cfg then Some (take (maxResponseBytes cfg) (concat ds)) else None)
               \<and> err r = Some (if ev = ResponseTimer then ResponseTimeout else MaxResponseBytesExceeded)))"
proof -
  have fed: "fed cfg k s ds" unfolding s ds by (rule fed_run)
  have pinv: "probe_inv cfg s" unfolding s by (rule probe_inv_run)
  have ainv: "attempt_inv cfg (socks s ! k)" by (rule probe_inv_nth[OF pinv k])
  have A: "connected (socks s ! k) \<longrightarrow>
            responseBuffer (socks s ! k) = Some (take (maxResponseBytes cfg) (concat ds))
          \<and> didExceedResponseBytes (socks s ! k) = (maxResponseBytes cfg < length (concat ds))"
    using fed k by (simp add: fed_def)
  have B: "\<exists>r. results (emit True cfg s (k, now, ev)) = results s @ [r]
               \<and> bytes r = Some (maxResponseBytes cfg)
               \<and> data r = (if capture cfg then Some (take (maxResponseBytes cfg) (concat ds)) else None)
               \<and> err r = Some (if ev = ResponseTimer then ResponseTimeout else MaxResponseBytesExceeded)"
    if big: "maxResponseBytes cfg < length (concat ds)" and np: "\<not> didPushResults (socks s ! k)"
      and ev: "ev = Close \<or> ev = Timeout \<or> ev = ResponseTimer" and em: "emitted (socks s ! k) ev"
  proof -
    from big have "ds \<noteq> []" by auto
    with fed k have con: "connected (socks s ! k)" by (auto simp: fed_def split: if_splits)
    with A have buf: "responseBuffer (socks s ! k) = Some (take (maxResponseBytes cfg) (concat ds))"
      and ex: "didExceedResponseBytes (socks s ! k)" using big by simp_all
    from ainv buf ex have le: "lastErr (socks s ! k) = Some MaxResponseBytesExceeded"
      by (simp add: attempt_inv_def)
    have len: "length (take (maxResponseBytes cfg) (concat ds)) = maxResponseBytes cfg"
      using big by simp
    from trigger_result_exceeded[OF k np buf len le ev, of now] k em show ?thesis by simp
  qed
  from A B show ?thesis by blast
qed

lemma overflow_prefix_state:
  "length (socks (run True example_config 0 overflow_prefix)) = 1"
  "\<not> didPushResults (socks (run True example_config 0 overflow_prefix) ! 0)"
  "results (run True example_config 0 overflow_prefix) = []"
  "inbound example_config 0 overflow_prefix 0 = [''0123'', ''456789'']"
  by (simp_all add: example_config_eq overflow_prefix_def inbound_def run_simps)

theorem overflow_result_witness:
  "0 < length (socks (run True example_config 0 overflow_prefix))
   \<and> maxResponseBytes example_config < length (concat (inbound example_config 0 overflow_prefix 0))
   \<and> \<not> didPushResults (socks (run True example_config 0 overflow_prefix) ! 0)
   \<and> (\<exists>r. results (emit True example_config (run True example_config 0 overflow_prefix) (0, 6, Close)) = [r]
          \<and> bytes r = Some 6 \<and> data r = Some ''012345'' \<and> err r = Some MaxResponseBytesExceeded)"
proof -
  let ?s = "run True example_config 0 overflow_prefix"
  have k: "0 < length (socks ?s)" and np: "\<not> didPushResults (socks ?s ! 0)"
    and r: "results ?s = []"
    and i: "inbound example_config 0 overflow_prefix 0 = [''0123'', ''456789'']"
    by (simp_all add: overflow_prefix_state)
  have m: "maxResponseBytes example_config = 6" and c: "capture example_config"
    by (simp_all add: example_config_eq)
  have big: "maxResponseBytes example_config < length (concat (inbound example_config 0 overflow_prefix 0))"
    by (simp add: i m)
  from overflow_result[OF refl k refl, of Close 6] big np
  have "\<exists>r. results (emit True example_config ?s (0, 6, Close)) = results ?s @ [r]
          \<and> bytes r = Some (maxResponseBytes example_config)
          \<and> data r = (if capture example_config
               then Some (take (maxResponseBytes example_config) (concat (inbound example_config 0 overflow_prefix 0)))
               else None)
          \<and> err r = Some (if Close = ResponseTimer then ResponseTimeout else MaxResponseBytesExceeded)"
    by simp
  then have "\<exists>r. results (emit True example_config ?s (0, 6, Close)) = [r]
          \<and> bytes r = Some 6 \<and> data r = Some ''012345'' \<and> err r = Some MaxResponseBytesExceeded"
    by (simp add: r m c i del: emit.simps)
  with k big np show ?thesis by blast
qed

theorem overflow_then_timer_counterexample:
  "maxResponseBytes example_config < length (concat (inbound example_config 0 overflow_prefix 0))
   \<and> map err (results (run True example_config 0 (overflow_prefix @ [(0, 5000, ResponseTimer)])))
       = [Some ResponseTimeout]"
proof -
  have "map err (results (run True example_config 0 (overflow_prefix @ [(0, 5000, ResponseTimer)])))
       = [Some ResponseTimeout]"
    by (simp add: example_config_eq overflow_prefix_def run_simps)
  moreover have "maxResponseBytes example_config < length (concat (inbound example_config 0 overflow_prefix 0))"
    by (simp add: overflow_prefix_state) (simp add: example_config_eq)
  ultimately show ?thesis by blast
qed

end
